theory Spec2Isabelle
  imports Main "HOL-Library.Word"
begin

section \<open>The merged-blocks writer of sf-tools\<close>

text \<open>
  A shallow embedding of \<^verbatim>\<open>merged_blocks_writer.go\<close>. The writer receives blocks one at a
  time, keeps those of the current bundle of 100 block numbers in a buffer, and hands the
  buffer to a store when the bundle is over.

  Go's \<^verbatim>\<open>uint64\<close> is \<^typ>\<open>64 word\<close>: \<open>+\<close> and \<open>-\<close> wrap around, \<open><\<close> and \<open>mod\<close>
  are unsigned. \<^verbatim>\<open>len\<close> of a slice is a \<^typ>\<open>nat\<close>.
\<close>

subsection \<open>Data\<close>

type_synonym uint64 = "64 word"
type_synonym byte = "8 word"

text \<open>
  \<^verbatim>\<open>bstream.Block\<close>: the writer reads the fields \<^verbatim>\<open>Id\<close> and \<^verbatim>\<open>Number\<close> only;
  \<open>Payload\<close> stands for everything else a block carries. The field \<^verbatim>\<open>Id\<close> is
  written \<open>Id'\<close>, since \<open>Id\<close> is the identity relation of HOL.
\<close>

record Block =
  Id' :: string
  Number :: uint64
  Payload :: "byte list"

text \<open>
  What the store can read from the read end of the \<^verbatim>\<open>io.Pipe\<close>: the bytes written
  to the write end before it was closed, and the error it was closed with
  (\<open>None\<close>: \<^verbatim>\<open>CloseWithError(nil)\<close>, the reader sees a plain end of file).
\<close>

type_synonym stream = "byte list \<times> string option"

text \<open>The calls to \<^verbatim>\<open>w.logger\<close>, one constructor for each call in the source, with its fields.\<close>

datatype log_entry =
    Debug_initial_boundary uint64 Block
  | Debug_next_bundle Block uint64
  | Debug_last_bundle_block uint64
  | Info_writing string uint64
  | Error_writing string
  | Error_duplicate_number uint64 Block Block
  | Error_duplicate_id string Block Block

text \<open>
  The values \<^verbatim>\<open>ProcessBlock\<close> returns as its \<^verbatim>\<open>error\<close>, with the arguments of each
  \<^verbatim>\<open>fmt.Errorf\<close>. \<open>Downstream\<close> is the error of \<^verbatim>\<open>store.WriteObject\<close>, returned as it
  is; \<open>EOF\<close> is \<^verbatim>\<open>io.EOF\<close>; \<open>NilDereference\<close> is the run-time panic of reading
  \<^verbatim>\<open>blk.Number\<close> through a nil pointer.
\<close>

datatype error =
    Tweaking string
  | UnexpectedBlock Block uint64
  | BundleSize nat uint64
  | NoBlocks
  | Downstream string
  | EOF
  | NilDereference

text \<open>
  The struct \<^verbatim>\<open>mergedBlocksWriter\<close>. The field \<open>store\<close> holds the state of the store as
  far as the writer can change it: the objects written so far, oldest first, each with its
  name and the stream it was given. The field \<open>logger\<close> holds the entries logged so far.
  A pointer to a block is a \<^typ>\<open>Block option\<close> (\<open>None\<close> is nil); the buffer holds
  blocks, since a pointer is dereferenced before it is appended. The hook
  \<^verbatim>\<open>tweakBlock\<close> is a function from a pointer to an error or a pointer.
\<close>

record mergedBlocksWriter =
  store :: "(string \<times> stream) list"
  lowBlockNum :: uint64
  stopBlockNum :: uint64
  blocks :: "Block list"
  logger :: "log_entry list"
  checkBundleSize :: bool
  tweakBlock :: "(Block option \<Rightarrow> string + Block option) option"

text \<open>
  What the writer calls and this file does not define: the global
  \<^verbatim>\<open>bstream.GetProtocolFirstStreamableBlock\<close>; the answer of \<^verbatim>\<open>store.WriteObject\<close>
  (\<open>None\<close> is nil), which may depend on the objects written before, on the name and on the
  stream; \<^verbatim>\<open>writerFactory.New\<close> and \<^verbatim>\<open>blockWriter.Write\<close>, each giving the bytes it
  writes to the pipe and its error.
\<close>

record env =
  GetProtocolFirstStreamableBlock :: uint64
  WriteObject :: "(string \<times> stream) list \<Rightarrow> string \<Rightarrow> stream \<Rightarrow> string option"
  New :: "byte list \<times> string option"
  Write :: "Block \<Rightarrow> byte list \<times> string option"

subsection \<open>Boundaries and file names\<close>

text \<open>\<^verbatim>\<open>func lowBoundary(i uint64) uint64 { return i - (i % 100) }\<close>\<close>

definition lowBoundary :: "uint64 \<Rightarrow> uint64" where
  "lowBoundary i = i - (i mod 100)"

text \<open>
  \<^verbatim>\<open>fmt.Sprintf("%010d", num)\<close>: the decimal digits of \<open>num\<close>, with zeros on the left
  up to a width of 10; a longer number is printed in full.
\<close>

definition digit :: "nat \<Rightarrow> char" where
  "digit d = ''0123456789'' ! d"

fun decimal :: "nat \<Rightarrow> string" where
  "decimal n = (if n < 10 then [digit n] else decimal (n div 10) @ [digit (n mod 10)])"

declare decimal.simps [simp del]

definition filename :: "uint64 \<Rightarrow> string" where
  "filename num = (let s = decimal (unat num) in replicate (10 - length s) (CHR ''0'') @ s)"

subsection \<open>Writing a bundle\<close>

text \<open>
  The goroutine of \<^verbatim>\<open>writeBundle\<close>: \<^verbatim>\<open>writerFactory.New(pw)\<close>, then
  \<^verbatim>\<open>blockWriter.Write(blk)\<close> for each block of the buffer in order, stopping at the first
  error; the deferred \<^verbatim>\<open>pw.CloseWithError(err)\<close> closes the pipe with that error. The
  interleaving with the reader is not modelled: \<open>pipe\<close> is the whole stream.
\<close>

fun writeAll :: "(Block \<Rightarrow> byte list \<times> string option) \<Rightarrow> Block list \<Rightarrow> stream" where
  "writeAll wr [] = ([], None)"
| "writeAll wr (blk # blks) =
     (case wr blk of
        (bs, Some err) \<Rightarrow> (bs, Some err)
      | (bs, None) \<Rightarrow> (case writeAll wr blks of (rest, err) \<Rightarrow> (bs @ rest, err)))"

definition pipe :: "env \<Rightarrow> Block list \<Rightarrow> stream" where
  "pipe env blks =
     (case New env of
        (hdr, Some err) \<Rightarrow> (hdr, Some err)
      | (hdr, None) \<Rightarrow> (case writeAll (Write env) blks of (bs, err) \<Rightarrow> (hdr @ bs, err)))"

text \<open>
  \<^verbatim>\<open>writeBundle\<close>, lines 75 to 113. The result is the returned error and the writer
  afterwards.
\<close>

definition writeBundle :: "env \<Rightarrow> mergedBlocksWriter \<Rightarrow> error option \<times> mergedBlocksWriter" where
  "writeBundle env w =
     (let file = filename (lowBlockNum w);
          w1 = w\<lparr>logger := logger w @ [Info_writing file (lowBlockNum w)]\<rparr>
      in if length (blocks w1) = 0 then (Some NoBlocks, w1)
         else
           let pr = pipe env (blocks w1);
               err = WriteObject env (store w1) file pr;
               w2 = w1\<lparr>store := store w1 @ [(file, pr)]\<rparr>;
               w3 = (case err of
                       Some e \<Rightarrow> w2\<lparr>logger := logger w2 @ [Error_writing e]\<rparr>
                     | None \<Rightarrow> w2)
           in (map_option Downstream err, w3\<lparr>lowBlockNum := lowBlockNum w3 + 100, blocks := []\<rparr>))"

subsection \<open>The scans for duplicates\<close>

text \<open>
  \<^verbatim>\<open>checkDuplicateNumbers\<close> and \<^verbatim>\<open>checkDuplicateIds\<close>: one pass over the buffer with a
  map from the key to the first block seen with it; a block whose key is in the map is
  logged with that first block, any other block is entered. They return nothing.
\<close>

fun duplicateNumbers :: "(uint64 \<rightharpoonup> Block) \<Rightarrow> Block list \<Rightarrow> log_entry list" where
  "duplicateNumbers blockMap [] = []"
| "duplicateNumbers blockMap (b # bs) =
     (case blockMap (Number b) of
        Some block \<Rightarrow> Error_duplicate_number (Number b) b block # duplicateNumbers blockMap bs
      | None \<Rightarrow> duplicateNumbers (blockMap(Number b \<mapsto> b)) bs)"

definition checkDuplicateNumbers :: "mergedBlocksWriter \<Rightarrow> mergedBlocksWriter" where
  "checkDuplicateNumbers w = w\<lparr>logger := logger w @ duplicateNumbers Map.empty (blocks w)\<rparr>"

fun duplicateIds :: "(string \<rightharpoonup> Block) \<Rightarrow> Block list \<Rightarrow> log_entry list" where
  "duplicateIds blockMap [] = []"
| "duplicateIds blockMap (b # bs) =
     (case blockMap (Id' b) of
        Some block \<Rightarrow> Error_duplicate_id (Id' b) b block # duplicateIds blockMap bs
      | None \<Rightarrow> duplicateIds (blockMap(Id' b \<mapsto> b)) bs)"

definition checkDuplicateIds :: "mergedBlocksWriter \<Rightarrow> mergedBlocksWriter" where
  "checkDuplicateIds w = w\<lparr>logger := logger w @ duplicateIds Map.empty (blocks w)\<rparr>"

subsection \<open>Processing a block\<close>

text \<open>
  \<^verbatim>\<open>ProcessBlock\<close>, lines 25 to 69, in the order of the source. The argument
  \<^verbatim>\<open>obj\<close> is never read and is left out.

  Lines 26 to 32: the hook, when there is one.
\<close>

definition tweak :: "mergedBlocksWriter \<Rightarrow> Block option \<Rightarrow> error + Block option" where
  "tweak w blk =
     (case tweakBlock w of
        None \<Rightarrow> Inr blk
      | Some f \<Rightarrow> (case f blk of Inl err \<Rightarrow> Inl (Tweaking err) | Inr b \<Rightarrow> Inr b))"

text \<open>Lines 34 to 40: the branch commented \<^verbatim>\<open>// initial block\<close>.\<close>

definition initialBlock :: "env \<Rightarrow> mergedBlocksWriter \<Rightarrow> Block \<Rightarrow> error + mergedBlocksWriter" where
  "initialBlock env w blk =
     (if lowBlockNum w = 0 \<and> Number blk > 99 then
        if Number blk mod 100 \<noteq> 0 \<and> Number blk \<noteq> GetProtocolFirstStreamableBlock env
        then Inl (UnexpectedBlock blk (GetProtocolFirstStreamableBlock env))
        else Inr (w\<lparr>lowBlockNum := lowBoundary (Number blk),
                    logger := logger w @ [Debug_initial_boundary (lowBoundary (Number blk)) blk]\<rparr>)
      else Inr w)"

text \<open>Lines 42 to 47: a block of a later bundle writes the buffer.\<close>

definition nextBundle :: "env \<Rightarrow> mergedBlocksWriter \<Rightarrow> Block \<Rightarrow> error option \<times> mergedBlocksWriter" where
  "nextBundle env w blk =
     (if Number blk > lowBlockNum w + 99
      then writeBundle env (w\<lparr>logger := logger w @ [Debug_next_bundle blk (lowBlockNum w + 99)]\<rparr>)
      else (None, w))"

text \<open>
  Lines 26 to 51, all that happens before the block is appended: the hook, the read of
  \<^verbatim>\<open>blk.Number\<close>, the initial block, the next bundle, the stop block. The result is
  either the error returned and the writer at that point, or the block to append and the
  writer it is appended to.
\<close>

definition admit ::
  "env \<Rightarrow> mergedBlocksWriter \<Rightarrow> Block option \<Rightarrow> (error \<times> mergedBlocksWriter) + (Block \<times> mergedBlocksWriter)" where
  "admit env w p =
     (case tweak w p of
        Inl err \<Rightarrow> Inl (err, w)
      | Inr None \<Rightarrow> Inl (NilDereference, w)
      | Inr (Some blk) \<Rightarrow>
          (case initialBlock env w blk of
             Inl err \<Rightarrow> Inl (err, w)
           | Inr w1 \<Rightarrow>
               (case nextBundle env w1 blk of
                  (Some err, w2) \<Rightarrow> Inl (err, w2)
                | (None, w2) \<Rightarrow>
                    if stopBlockNum w2 > 0 \<and> Number blk \<ge> stopBlockNum w2
                    then Inl (EOF, w2)
                    else Inr (blk, w2))))"

text \<open>Lines 55 to 68, after the append: the last block of the bundle writes the buffer.\<close>

definition lastBundleBlock :: "env \<Rightarrow> mergedBlocksWriter \<Rightarrow> Block \<Rightarrow> error option \<times> mergedBlocksWriter" where
  "lastBundleBlock env w blk =
     (if Number blk = lowBlockNum w + 99 then
        let w1 = w\<lparr>logger := logger w @ [Debug_last_bundle_block (lowBlockNum w + 99)]\<rparr>
        in if checkBundleSize w1 \<and> length (blocks w1) \<noteq> 100 \<and> Number blk \<ge> 100
           then (Some (BundleSize (length (blocks w1)) (lowBlockNum w1)),
                 checkDuplicateIds (checkDuplicateNumbers w1))
           else writeBundle env w1
      else (None, w))"

definition ProcessBlock ::
  "env \<Rightarrow> mergedBlocksWriter \<Rightarrow> Block option \<Rightarrow> error option \<times> mergedBlocksWriter" where
  "ProcessBlock env w p =
     (case admit env w p of
        Inl (err, w') \<Rightarrow> (Some err, w')
      | Inr (blk, w') \<Rightarrow> lastBundleBlock env (w'\<lparr>blocks := blocks w' @ [blk]\<rparr>) blk)"

text \<open>
  The caller: one \<^verbatim>\<open>ProcessBlock\<close> for each block of a list, in order, whatever the
  calls return. The result is the list of what the calls returned and the writer at the end.
\<close>

fun feed :: "env \<Rightarrow> mergedBlocksWriter \<Rightarrow> Block list \<Rightarrow> error option list \<times> mergedBlocksWriter" where
  "feed env w [] = ([], w)"
| "feed env w (blk # blks) =
     (case ProcessBlock env w (Some blk) of
        (r, w') \<Rightarrow> (case feed env w' blks of (rs, w'') \<Rightarrow> (r # rs, w'')))"

subsection \<open>The buffer and the bundle\<close>

text \<open>
  The invariant of the specification: every block of the buffer has its number between
  the boundary and the boundary plus 99, as numbers, without wrap-around.
\<close>

definition inBundle :: "mergedBlocksWriter \<Rightarrow> bool" where
  "inBundle w =
     list_all (\<lambda>blk. unat (lowBlockNum w) \<le> unat (Number blk)
                     \<and> unat (Number blk) \<le> unat (lowBlockNum w) + 99) (blocks w)"

text \<open>
  A call that continues the stream without a jump: the block it works on (the incoming
  one, or what the hook makes of it) either sets the boundary of a writer whose buffer is
  empty, or has a number from the boundary up to the end of the bundle after the current
  one, all within \<^verbatim>\<open>uint64\<close>. A call that returns before it reads the number of the
  block is of this kind.
\<close>

definition contiguous :: "mergedBlocksWriter \<Rightarrow> Block option \<Rightarrow> bool" where
  "contiguous w p =
     (case tweak w p of
        Inr (Some blk) \<Rightarrow>
          if lowBlockNum w = 0 \<and> 99 < Number blk
          then blocks w = [] \<and> unat (lowBoundary (Number blk)) + 99 < 2 ^ 64
          else unat (lowBlockNum w) \<le> unat (Number blk)
             \<and> unat (Number blk) \<le> unat (lowBlockNum w) + 199
             \<and> unat (lowBlockNum w) + 199 < 2 ^ 64
      | _ \<Rightarrow> True)"

fun contiguousFeed :: "env \<Rightarrow> mergedBlocksWriter \<Rightarrow> Block list \<Rightarrow> bool" where
  "contiguousFeed env w [] = True"
| "contiguousFeed env w (blk # blks) =
     (contiguous w (Some blk) \<and> contiguousFeed env (snd (ProcessBlock env w (Some blk))) blks)"

subsection \<open>Reading a file name\<close>

text \<open>
  The number that a string of decimal digits stands for: what a reader of the store makes
  of a file name. It is not part of the source; the properties of \<open>filename\<close> are stated
  with it.
\<close>

definition number :: "string \<Rightarrow> nat" where
  "number s = foldl (\<lambda>a c. 10 * a + (of_char c - 48)) 0 s"

subsection \<open>Concrete collaborators and inputs\<close>

text \<open>
  A store that accepts every object and one that refuses every object, a block writer that
  writes the payload of the block, the writer as it is before its first block (boundary 0,
  empty buffer, no hook), and a block for each number.
\<close>

definition okStore :: "(string \<times> stream) list \<Rightarrow> string \<Rightarrow> stream \<Rightarrow> string option" where
  "okStore written name content = None"

definition failingStore :: "(string \<times> stream) list \<Rightarrow> string \<Rightarrow> stream \<Rightarrow> string option" where
  "failingStore written name content = Some ''unavailable''"

definition payloadWrite :: "Block \<Rightarrow> byte list \<times> string option" where
  "payloadWrite blk = (Payload blk, None)"

definition testEnv :: "uint64 \<Rightarrow> env" where
  "testEnv first = \<lparr>GetProtocolFirstStreamableBlock = first, WriteObject = okStore,
     New = ([], None), Write = payloadWrite\<rparr>"

definition failingEnv :: "uint64 \<Rightarrow> env" where
  "failingEnv first = \<lparr>GetProtocolFirstStreamableBlock = first, WriteObject = failingStore,
     New = ([], None), Write = payloadWrite\<rparr>"

definition newWriter :: "uint64 \<Rightarrow> bool \<Rightarrow> mergedBlocksWriter" where
  "newWriter stop check = \<lparr>store = [], lowBlockNum = 0, stopBlockNum = stop, blocks = [],
     logger = [], checkBundleSize = check, tweakBlock = None\<rparr>"

definition block :: "nat \<Rightarrow> Block" where
  "block n = \<lparr>Id' = decimal n, Number = of_nat n, Payload = [of_nat (n mod 100)]\<rparr>"

text \<open>The blocks numbered \<open>b\<close> to \<open>b + k - 1\<close>, in order.\<close>

definition blocksFrom :: "nat \<Rightarrow> nat \<Rightarrow> Block list" where
  "blocksFrom b k = map (\<lambda>i. block (b + i)) [0..<k]"

section \<open>Properties\<close>

subsection \<open>Evaluating file names\<close>

lemma replicate_numeral: "replicate (numeral k) x = x # replicate (pred_numeral k) x"
  by (simp add: numeral_eq_Suc)

lemmas filename_eval = filename_def decimal.simps digit_def replicate_numeral

lemma filename_200: "filename 200 = ''0000000200''"
  by (simp add: filename_eval)

lemma digit_cases: "d < 10 \<Longrightarrow> d = 0 \<or> d = 1 \<or> d = 2 \<or> d = 3 \<or> d = 4 \<or> d = 5 \<or> d = 6 \<or> d = 7 \<or> d = 8 \<or> (d::nat) = 9"
  by arith

lemma digit_value: "d < 10 \<Longrightarrow> of_char (digit d) - 48 = d"
  using digit_cases [of d] by (auto simp add: digit_def)

lemma digit_in: "d < 10 \<Longrightarrow> digit d \<in> set ''0123456789''"
  using digit_cases [of d] by (auto simp add: digit_def)

lemma number_snoc: "number (s @ [c]) = 10 * number s + (of_char c - 48)"
  by (simp add: number_def)

lemma number_decimal: "number (decimal n) = n"
proof (induction n rule: decimal.induct)
  case (1 n)
  show ?case
  proof (cases "n < 10")
    case True
    then show ?thesis by (subst decimal.simps) (simp add: number_def digit_value)
  next
    case False
    then have "number (decimal n) = 10 * number (decimal (n div 10)) + (of_char (digit (n mod 10)) - 48)"
      by (subst decimal.simps) (simp add: number_snoc)
    also have "\<dots> = 10 * (n div 10) + n mod 10" using 1 False by (simp add: digit_value)
    finally show ?thesis by simp
  qed
qed

lemma number_zeros: "number (replicate k (CHR ''0'') @ s) = number s"
proof -
  have "foldl (\<lambda>a c. 10 * a + (of_char c - 48)) 0 (replicate k (CHR ''0'')) = (0::nat)"
    by (induction k) simp_all
  then show ?thesis by (simp add: number_def)
qed

lemma number_filename: "number (filename num) = unat num"
  by (simp add: filename_def Let_def number_zeros number_decimal)

lemma set_decimal: "set (decimal n) \<subseteq> set ''0123456789''"
proof (induction n rule: decimal.induct)
  case (1 n)
  show ?case
  proof (cases "n < 10")
    case True
    then show ?thesis using digit_in [of n] by (subst decimal.simps) simp
  next
    case False
    then show ?thesis using 1 digit_in [of "n mod 10"] by (subst decimal.simps) simp
  qed
qed

lemma set_filename: "set (filename num) \<subseteq> set ''0123456789''"
  using set_decimal [of "unat num"] by (auto simp add: filename_def Let_def)

lemma length_decimal: "(length (decimal n) \<le> Suc k) = (n < 10 ^ Suc k)"
proof (induction n arbitrary: k rule: decimal.induct)
  case (1 n)
  show ?case
  proof (cases "n < 10")
    case True
    have "(10::nat) \<le> 10 ^ Suc k" by simp
    with True have "n < 10 ^ Suc k" by linarith
    with True show ?thesis by (subst decimal.simps) simp
  next
    case False
    have l: "length (decimal n) = Suc (length (decimal (n div 10)))"
      using False by (subst decimal.simps) simp
    show ?thesis
    proof (cases k)
      case 0
      have "0 < length (decimal (n div 10))" by (subst decimal.simps) simp
      with 0 False l show ?thesis by simp
    next
      case (Suc k')
      have "(length (decimal (n div 10)) \<le> Suc k') = (n div 10 < 10 ^ Suc k')"
        using False by (rule 1)
      also have "\<dots> = (n < 10 ^ Suc k' * 10)" by (simp add: div_less_iff_less_mult)
      finally show ?thesis using l Suc by (simp add: mult.commute)
    qed
  qed
qed

lemma length_filename:
  "10 \<le> length (filename num)" "(length (filename num) = 10) = (unat num < 10 ^ 10)"
proof -
  have d: "(length (decimal (unat num)) \<le> 10) = (unat num < 10 ^ 10)"
    using length_decimal [of "unat num" 9] by simp
  show "10 \<le> length (filename num)" by (simp add: filename_def Let_def)
  show "(length (filename num) = 10) = (unat num < 10 ^ 10)"
    using d by (auto simp add: filename_def Let_def)
qed

subsection \<open>The stream of a buffer\<close>

lemma writeAll_ok:
  "\<forall>blk\<in>set blks. snd (wr blk) = None \<Longrightarrow> writeAll wr blks = (concat (map (\<lambda>blk. fst (wr blk)) blks), None)"
  by (induction blks) (auto split: prod.splits option.splits)

lemma pipe_ok:
  assumes "snd (New env) = None" and "\<forall>blk\<in>set blks. snd (Write env blk) = None"
  shows "pipe env blks = (fst (New env) @ concat (map (\<lambda>blk. fst (Write env blk)) blks), None)"
  using assms(1) writeAll_ok [OF assms(2)] by (cases "New env") (simp add: pipe_def)

subsection \<open>Writing an empty buffer\<close>

text \<open>
  Claim C9. When \<^verbatim>\<open>writeBundle\<close> is called with an empty buffer it returns the error
  "no blocks to write to bundle" before the pipe is made and before the store is called,
  and the writer is as before, apart from the line logged on entry: the boundary is not
  advanced, the buffer is not reset and the store has no new object. \<^verbatim>\<open>ProcessBlock\<close>
  gets there when a block beyond the current bundle arrives while the buffer is empty.
\<close>

theorem writeBundle_empty:
  assumes "blocks w = []"
  shows "writeBundle env w =
           (Some NoBlocks, w\<lparr>logger := logger w @ [Info_writing (filename (lowBlockNum w)) (lowBlockNum w)]\<rparr>)
       \<and> (tweak w p = Inr (Some blk) \<and> lowBlockNum w \<noteq> 0 \<and> Number blk > lowBlockNum w + 99 \<longrightarrow>
            ProcessBlock env w p =
              (Some NoBlocks, w\<lparr>logger := logger w @ [Debug_next_bundle blk (lowBlockNum w + 99),
                 Info_writing (filename (lowBlockNum w)) (lowBlockNum w)]\<rparr>))"
  using assms
  by (simp add: writeBundle_def ProcessBlock_def admit_def initialBlock_def nextBundle_def Let_def)

theorem writeBundle_empty_witness:
  "blocks ((newWriter 0 False)\<lparr>lowBlockNum := 100\<rparr>) = []
   \<and> writeBundle (testEnv 1) ((newWriter 0 False)\<lparr>lowBlockNum := 100\<rparr>) =
       (Some NoBlocks, (newWriter 0 False)\<lparr>lowBlockNum := 100, logger := [Info_writing ''0000000100'' 100]\<rparr>)
   \<and> ProcessBlock (testEnv 1) ((newWriter 0 False)\<lparr>lowBlockNum := 100\<rparr>) (Some (block 250)) =
       (Some NoBlocks, (newWriter 0 False)\<lparr>lowBlockNum := 100,
          logger := [Debug_next_bundle (block 250) 199, Info_writing ''0000000100'' 100]\<rparr>)"
proof -
  let ?w = "(newWriter 0 False)\<lparr>lowBlockNum := 100\<rparr>"
  have e: "blocks ?w = []" by (simp add: newWriter_def)
  have f: "filename 100 = ''0000000100''" by (simp add: filename_eval)
  have t: "tweak ?w (Some (block 250)) = Inr (Some (block 250)) \<and> lowBlockNum ?w \<noteq> 0
           \<and> Number (block 250) > lowBlockNum ?w + 99"
    by (simp add: tweak_def newWriter_def block_def)
  show ?thesis
    using writeBundle_empty [OF e, of "testEnv 1" "Some (block 250)" "block 250"] t f
    by (simp add: newWriter_def)
qed

subsection \<open>Writing a buffer that holds blocks\<close>

text \<open>
  Claim C3, as stated: after every call of \<^verbatim>\<open>writeBundle\<close>, whatever it returns, the
  boundary is 100 more than before and the buffer is empty. It fails for the empty buffer:
  the call returns its error with the boundary where it was.
\<close>

theorem writeBundle_always_advances_counterexample:
  "blocks (newWriter 0 False) = []
   \<and> fst (writeBundle (testEnv 1) (newWriter 0 False)) = Some NoBlocks
   \<and> lowBlockNum (snd (writeBundle (testEnv 1) (newWriter 0 False))) = lowBlockNum (newWriter 0 False)
   \<and> lowBlockNum (snd (writeBundle (testEnv 1) (newWriter 0 False))) \<noteq> lowBlockNum (newWriter 0 False) + 100"
  by (simp add: writeBundle_def newWriter_def)

text \<open>
  Claim C3, amended: after every call of \<^verbatim>\<open>writeBundle\<close> with a buffer that is not empty,
  whether the store accepts the object or not, the boundary is 100 more than before (in
  \<^verbatim>\<open>uint64\<close>) and the buffer is empty. The call returns what the store returned, and the
  store was called once, with the file name of the old boundary and the stream of the
  buffer.
\<close>

theorem writeBundle_advances:
  assumes "blocks w \<noteq> []"
  shows "fst (writeBundle env w) =
           map_option Downstream (WriteObject env (store w) (filename (lowBlockNum w)) (pipe env (blocks w)))
       \<and> lowBlockNum (snd (writeBundle env w)) = lowBlockNum w + 100
       \<and> blocks (snd (writeBundle env w)) = []
       \<and> store (snd (writeBundle env w)) = store w @ [(filename (lowBlockNum w), pipe env (blocks w))]"
  using assms by (simp add: writeBundle_def Let_def split: option.splits)

theorem writeBundle_advances_witness:
  "blocks ((newWriter 0 False)\<lparr>lowBlockNum := 200, blocks := [block 200]\<rparr>) \<noteq> []
   \<and> fst (writeBundle (failingEnv 1) ((newWriter 0 False)\<lparr>lowBlockNum := 200, blocks := [block 200]\<rparr>))
       = Some (Downstream ''unavailable'')
   \<and> lowBlockNum (snd (writeBundle (failingEnv 1) ((newWriter 0 False)\<lparr>lowBlockNum := 200, blocks := [block 200]\<rparr>)))
       = 300
   \<and> blocks (snd (writeBundle (failingEnv 1) ((newWriter 0 False)\<lparr>lowBlockNum := 200, blocks := [block 200]\<rparr>)))
       = []
   \<and> fst (writeBundle (testEnv 1) ((newWriter 0 False)\<lparr>lowBlockNum := 200, blocks := [block 200]\<rparr>))
       = None
   \<and> lowBlockNum (snd (writeBundle (testEnv 1) ((newWriter 0 False)\<lparr>lowBlockNum := 200, blocks := [block 200]\<rparr>)))
       = 300"
proof -
  let ?w = "(newWriter 0 False)\<lparr>lowBlockNum := 200, blocks := [block 200]\<rparr>"
  have n: "blocks ?w \<noteq> []" by (simp add: newWriter_def)
  show ?thesis
    using writeBundle_advances [OF n, of "failingEnv 1"] writeBundle_advances [OF n, of "testEnv 1"]
    by (simp add: newWriter_def failingEnv_def failingStore_def testEnv_def okStore_def)
qed

subsection \<open>The scans for duplicates\<close>

text \<open>
  A scan over blocks whose keys are all different and not yet in the map logs nothing;
  a scan over a buffer in which one block repeats the key of an earlier one, all other
  keys being different, logs that one pair.
\<close>

lemma duplicateNumbers_fresh:
  "distinct (map Number bs) \<Longrightarrow> \<forall>b\<in>set bs. m (Number b) = None \<Longrightarrow> duplicateNumbers m bs = []"
proof (induction bs arbitrary: m)
  case Nil
  then show ?case by simp
next
  case (Cons b bs)
  have "duplicateNumbers (m(Number b \<mapsto> b)) bs = []"
    using Cons.prems by (intro Cons.IH) (auto simp add: image_iff)
  then show ?case using Cons.prems by simp
qed

lemma duplicateNumbers_second:
  assumes "m (Number b2) = Some b1"
    and "distinct (map Number (ys @ zs))"
    and "\<forall>b\<in>set (ys @ zs). m (Number b) = None"
  shows "duplicateNumbers m (ys @ b2 # zs) = [Error_duplicate_number (Number b2) b2 b1]"
  using assms
proof (induction ys arbitrary: m)
  case Nil
  then show ?case by (simp add: duplicateNumbers_fresh)
next
  case (Cons y ys)
  have ne: "Number y \<noteq> Number b2" using Cons.prems(1,3) by auto
  have "duplicateNumbers (m(Number y \<mapsto> y)) (ys @ b2 # zs) = [Error_duplicate_number (Number b2) b2 b1]"
    using Cons.prems ne by (intro Cons.IH) (auto simp add: image_iff)
  then show ?case using Cons.prems by simp
qed

lemma duplicateNumbers_pair:
  assumes "Number b2 = Number b1"
    and "distinct (map Number (xs @ b1 # ys @ zs))"
    and "\<forall>b\<in>set (xs @ b1 # ys @ zs). m (Number b) = None"
  shows "duplicateNumbers m (xs @ b1 # ys @ b2 # zs) = [Error_duplicate_number (Number b2) b2 b1]"
  using assms
proof (induction xs arbitrary: m)
  case Nil
  have "duplicateNumbers (m(Number b1 \<mapsto> b1)) (ys @ b2 # zs) = [Error_duplicate_number (Number b2) b2 b1]"
    using Nil by (intro duplicateNumbers_second) (auto simp add: image_iff)
  then show ?case using Nil by simp
next
  case (Cons x xs)
  have "duplicateNumbers (m(Number x \<mapsto> x)) (xs @ b1 # ys @ b2 # zs) = [Error_duplicate_number (Number b2) b2 b1]"
    using Cons.prems by (intro Cons.IH) (auto simp add: image_iff)
  then show ?case using Cons.prems by simp
qed

lemma duplicateIds_fresh:
  "distinct (map Id' bs) \<Longrightarrow> \<forall>b\<in>set bs. m (Id' b) = None \<Longrightarrow> duplicateIds m bs = []"
proof (induction bs arbitrary: m)
  case Nil
  then show ?case by simp
next
  case (Cons b bs)
  have "duplicateIds (m(Id' b \<mapsto> b)) bs = []"
    using Cons.prems by (intro Cons.IH) (auto simp add: image_iff)
  then show ?case using Cons.prems by simp
qed

lemma duplicateIds_second:
  assumes "m (Id' b2) = Some b1"
    and "distinct (map Id' (ys @ zs))"
    and "\<forall>b\<in>set (ys @ zs). m (Id' b) = None"
  shows "duplicateIds m (ys @ b2 # zs) = [Error_duplicate_id (Id' b2) b2 b1]"
  using assms
proof (induction ys arbitrary: m)
  case Nil
  then show ?case by (simp add: duplicateIds_fresh)
next
  case (Cons y ys)
  have ne: "Id' y \<noteq> Id' b2" using Cons.prems(1,3) by auto
  have "duplicateIds (m(Id' y \<mapsto> y)) (ys @ b2 # zs) = [Error_duplicate_id (Id' b2) b2 b1]"
    using Cons.prems ne by (intro Cons.IH) (auto simp add: image_iff)
  then show ?case using Cons.prems by simp
qed

lemma duplicateIds_pair:
  assumes "Id' b2 = Id' b1"
    and "distinct (map Id' (xs @ b1 # ys @ zs))"
    and "\<forall>b\<in>set (xs @ b1 # ys @ zs). m (Id' b) = None"
  shows "duplicateIds m (xs @ b1 # ys @ b2 # zs) = [Error_duplicate_id (Id' b2) b2 b1]"
  using assms
proof (induction xs arbitrary: m)
  case Nil
  have "duplicateIds (m(Id' b1 \<mapsto> b1)) (ys @ b2 # zs) = [Error_duplicate_id (Id' b2) b2 b1]"
    using Nil by (intro duplicateIds_second) (auto simp add: image_iff)
  then show ?case using Nil by simp
next
  case (Cons x xs)
  have "duplicateIds (m(Id' x \<mapsto> x)) (xs @ b1 # ys @ b2 # zs) = [Error_duplicate_id (Id' b2) b2 b1]"
    using Cons.prems by (intro Cons.IH) (auto simp add: image_iff)
  then show ?case using Cons.prems by simp
qed

text \<open>
  Claim C8. Let two blocks \<open>b1\<close> and \<open>b2\<close> of the buffer, \<open>b1\<close> before \<open>b2\<close>, have the
  same number, wherever they stand in the buffer, and let no other two blocks of the
  buffer share a number. Then \<^verbatim>\<open>checkDuplicateNumbers\<close> logs one entry, which names the
  number, the later block \<open>b2\<close> and the earlier block \<open>b1\<close>. \<^verbatim>\<open>checkDuplicateIds\<close> does
  the same for two blocks with the same id. On a buffer without a repeated key a scan
  logs nothing. On every buffer both scans change nothing but the log, and they return no
  error: they return nothing but the writer.
\<close>

theorem duplicate_scans:
  "(blocks w = xs @ b1 # ys @ b2 # zs \<and> Number b2 = Number b1
      \<and> distinct (map Number (xs @ b1 # ys @ zs)) \<longrightarrow>
      checkDuplicateNumbers w = w\<lparr>logger := logger w @ [Error_duplicate_number (Number b2) b2 b1]\<rparr>)
   \<and> (blocks w = xs @ b1 # ys @ b2 # zs \<and> Id' b2 = Id' b1
      \<and> distinct (map Id' (xs @ b1 # ys @ zs)) \<longrightarrow>
      checkDuplicateIds w = w\<lparr>logger := logger w @ [Error_duplicate_id (Id' b2) b2 b1]\<rparr>)
   \<and> (distinct (map Number (blocks w)) \<longrightarrow> checkDuplicateNumbers w = w)
   \<and> (distinct (map Id' (blocks w)) \<longrightarrow> checkDuplicateIds w = w)
   \<and> (checkDuplicateNumbers w)\<lparr>logger := logger w\<rparr> = w
   \<and> (checkDuplicateIds w)\<lparr>logger := logger w\<rparr> = w"
proof -
  have n: "checkDuplicateNumbers w = w\<lparr>logger := logger w @ [Error_duplicate_number (Number b2) b2 b1]\<rparr>"
    if "blocks w = xs @ b1 # ys @ b2 # zs" "Number b2 = Number b1"
       "distinct (map Number (xs @ b1 # ys @ zs))"
    using duplicateNumbers_pair [OF that(2,3), of Map.empty] that(1)
    by (simp add: checkDuplicateNumbers_def)
  have i: "checkDuplicateIds w = w\<lparr>logger := logger w @ [Error_duplicate_id (Id' b2) b2 b1]\<rparr>"
    if "blocks w = xs @ b1 # ys @ b2 # zs" "Id' b2 = Id' b1"
       "distinct (map Id' (xs @ b1 # ys @ zs))"
    using duplicateIds_pair [OF that(2,3), of Map.empty] that(1)
    by (simp add: checkDuplicateIds_def)
  have dn: "checkDuplicateNumbers w = w" if "distinct (map Number (blocks w))"
    using duplicateNumbers_fresh [OF that, of Map.empty] by (simp add: checkDuplicateNumbers_def)
  have di: "checkDuplicateIds w = w" if "distinct (map Id' (blocks w))"
    using duplicateIds_fresh [OF that, of Map.empty] by (simp add: checkDuplicateIds_def)
  have u: "(checkDuplicateNumbers w)\<lparr>logger := logger w\<rparr> = w"
      "(checkDuplicateIds w)\<lparr>logger := logger w\<rparr> = w"
    by (simp_all add: checkDuplicateNumbers_def checkDuplicateIds_def)
  show ?thesis using n i dn di u by blast
qed

theorem duplicate_scans_witness:
  "checkDuplicateNumbers ((newWriter 0 True)\<lparr>blocks := [block 7, block 8, (block 7)\<lparr>Id' := ''other''\<rparr>]\<rparr>) =
     (newWriter 0 True)\<lparr>blocks := [block 7, block 8, (block 7)\<lparr>Id' := ''other''\<rparr>],
        logger := [Error_duplicate_number 7 ((block 7)\<lparr>Id' := ''other''\<rparr>) (block 7)]\<rparr>
   \<and> checkDuplicateIds ((newWriter 0 True)\<lparr>blocks := [block 7, block 8, (block 7)\<lparr>Number := 9\<rparr>]\<rparr>) =
     (newWriter 0 True)\<lparr>blocks := [block 7, block 8, (block 7)\<lparr>Number := 9\<rparr>],
        logger := [Error_duplicate_id ''7'' ((block 7)\<lparr>Number := 9\<rparr>) (block 7)]\<rparr>
   \<and> checkDuplicateNumbers ((newWriter 0 True)\<lparr>blocks := [block 7, block 8]\<rparr>) =
     (newWriter 0 True)\<lparr>blocks := [block 7, block 8]\<rparr>
   \<and> checkDuplicateIds ((newWriter 0 True)\<lparr>blocks := [block 7, block 8]\<rparr>) =
     (newWriter 0 True)\<lparr>blocks := [block 7, block 8]\<rparr>"
proof -
  let ?n = "(block 7)\<lparr>Id' := ''other''\<rparr>"
  let ?i = "(block 7)\<lparr>Number := 9\<rparr>"
  let ?wn = "(newWriter 0 True)\<lparr>blocks := [block 7, block 8, ?n]\<rparr>"
  let ?wi = "(newWriter 0 True)\<lparr>blocks := [block 7, block 8, ?i]\<rparr>"
  let ?wd = "(newWriter 0 True)\<lparr>blocks := [block 7, block 8]\<rparr>"
  have d: "decimal 7 = ''7''" "decimal 8 = ''8''" by (simp_all add: decimal.simps digit_def)
  have hn: "blocks ?wn = [] @ block 7 # [block 8] @ ?n # [] \<and> Number ?n = Number (block 7)
      \<and> distinct (map Number ([] @ block 7 # [block 8] @ []))"
    by (simp add: newWriter_def block_def)
  have hi: "blocks ?wi = [] @ block 7 # [block 8] @ ?i # [] \<and> Id' ?i = Id' (block 7)
      \<and> distinct (map Id' ([] @ block 7 # [block 8] @ []))"
    by (simp add: newWriter_def block_def d)
  have hd: "distinct (map Number (blocks ?wd))" "distinct (map Id' (blocks ?wd))"
    by (simp_all add: newWriter_def block_def d)
  have "checkDuplicateNumbers ?wn = ?wn\<lparr>logger := logger ?wn @ [Error_duplicate_number (Number ?n) ?n (block 7)]\<rparr>"
    using duplicate_scans [of ?wn "[]" "block 7" "[block 8]" ?n "[]"] hn by blast
  moreover have "checkDuplicateIds ?wi = ?wi\<lparr>logger := logger ?wi @ [Error_duplicate_id (Id' ?i) ?i (block 7)]\<rparr>"
    using duplicate_scans [of ?wi "[]" "block 7" "[block 8]" ?i "[]"] hi by blast
  moreover have "checkDuplicateNumbers ?wd = ?wd" "checkDuplicateIds ?wd = ?wd"
    using duplicate_scans [of ?wd] hd by blast+
  ultimately show ?thesis by (simp add: newWriter_def block_def d)
qed

subsection \<open>Arithmetic of boundaries\<close>

lemma unat_lowBoundary: "unat (lowBoundary n) = unat n - unat n mod 100"
proof -
  have "n mod 100 \<le> n" by (simp add: word_le_nat_alt unat_mod)
  then have "unat (n - n mod 100) = unat n - unat (n mod 100)" by (rule unat_sub)
  then show ?thesis by (simp add: lowBoundary_def unat_mod)
qed

lemma lowBoundary_not_0: "99 < (n::uint64) \<Longrightarrow> lowBoundary n \<noteq> 0"
proof
  assume a: "99 < n" and z: "lowBoundary n = 0"
  from a have "99 < unat n" by (simp add: word_less_nat_alt)
  moreover have "unat n mod 100 < 100" by simp
  moreover from z have "unat n - unat n mod 100 = 0" using unat_lowBoundary [of n] by simp
  ultimately show False by arith
qed

lemma unat_plus99: "unat (l::uint64) + 99 < 2 ^ 64 \<Longrightarrow> unat (l + 99) = unat l + 99"
  using unat_add_lem [of l 99] by simp

lemma unat_plus100: "unat (l::uint64) + 100 < 2 ^ 64 \<Longrightarrow> unat (l + 100) = unat l + 100"
  using unat_add_lem [of l 100] by simp

lemma in_own_bundle:
  assumes "unat (lowBoundary n) + 99 < 2 ^ 64"
  shows "\<not> lowBoundary n + 99 < n"
proof -
  have "unat n mod 100 < 100" by simp
  then have "unat n \<le> unat (lowBoundary n) + 99" unfolding unat_lowBoundary by arith
  then show ?thesis using assms by (simp add: word_less_nat_alt unat_plus99)
qed

lemma m99: "(k::nat) mod 100 < 100 \<Longrightarrow> (k = k - k mod 100 + 99) = (k mod 100 = 99)"
  by (metis add_diff_cancel_left' diff_add_inverse2 le_add_diff_inverse2 mod_less_eq_dividend)

lemma last_of_bundle:
  assumes "unat (lowBoundary n) + 99 < 2 ^ 64"
  shows "(n = lowBoundary n + 99) = (n mod 100 = 99)"
proof -
  have "(n = lowBoundary n + 99) = (unat n = unat (lowBoundary n + 99))"
    by (simp add: word_unat_eq_iff)
  also have "\<dots> = (unat n = unat n - unat n mod 100 + 99)"
    using assms by (simp add: unat_plus99 unat_lowBoundary)
  also have "\<dots> = (unat n mod 100 = 99)" by (rule m99) simp
  also have "\<dots> = (n mod 100 = 99)" by (simp add: word_unat_eq_iff unat_mod)
  finally show ?thesis .
qed


subsection \<open>The steps of a call\<close>

lemma tweak_update [simp]:
  "tweak (w\<lparr>lowBlockNum := l\<rparr>) p = tweak w p"
  "tweak (w\<lparr>logger := lg\<rparr>) p = tweak w p"
  "tweak (w\<lparr>blocks := bs\<rparr>) p = tweak w p"
  "tweak (w\<lparr>store := st\<rparr>) p = tweak w p"
  by (simp_all add: tweak_def)

lemma initialBlock_established:
  "lowBlockNum w \<noteq> 0 \<Longrightarrow> initialBlock env w blk = Inr w"
  by (simp add: initialBlock_def)

subsection \<open>The initial block\<close>

text \<open>
  Claim C6. Let the boundary be 0 and the number \<open>n\<close> of the incoming block (after the
  hook) be above 99. Then \<^verbatim>\<open>ProcessBlock\<close> returns the error "received unexpected
  block" if and only if \<open>n\<close> is neither a multiple of 100 nor the first streamable block,
  and then the writer is unchanged: no object is written, nothing is logged. Otherwise the
  boundary is set to \<open>n - n mod 100\<close>: the call goes on exactly as a call on a writer with
  that boundary does, and when \<open>n\<close> is not the last number of its bundle the call ends with
  that boundary and without writing an object.
\<close>

theorem initial_block_boundary:
  assumes t: "tweak w p = Inr (Some blk)" and z: "lowBlockNum w = 0" and n: "Number blk > 99"
  shows "((\<exists>b f. fst (ProcessBlock env w p) = Some (UnexpectedBlock b f))
            = (Number blk mod 100 \<noteq> 0 \<and> Number blk \<noteq> GetProtocolFirstStreamableBlock env))
       \<and> (Number blk mod 100 \<noteq> 0 \<and> Number blk \<noteq> GetProtocolFirstStreamableBlock env \<longrightarrow>
            ProcessBlock env w p = (Some (UnexpectedBlock blk (GetProtocolFirstStreamableBlock env)), w))
       \<and> (\<not> (Number blk mod 100 \<noteq> 0 \<and> Number blk \<noteq> GetProtocolFirstStreamableBlock env) \<longrightarrow>
            initialBlock env w blk =
              Inr (w\<lparr>lowBlockNum := Number blk - Number blk mod 100,
                     logger := logger w @ [Debug_initial_boundary (Number blk - Number blk mod 100) blk]\<rparr>)
          \<and> ProcessBlock env w p =
              ProcessBlock env
                (w\<lparr>lowBlockNum := Number blk - Number blk mod 100,
                   logger := logger w @ [Debug_initial_boundary (Number blk - Number blk mod 100) blk]\<rparr>) p
          \<and> (Number blk mod 100 \<noteq> 99 \<and> unat (Number blk - Number blk mod 100) + 99 < 2 ^ 64 \<longrightarrow>
               lowBlockNum (snd (ProcessBlock env w p)) = Number blk - Number blk mod 100
             \<and> store (snd (ProcessBlock env w p)) = store w))"
proof -
  let ?bad = "Number blk mod 100 \<noteq> 0 \<and> Number blk \<noteq> GetProtocolFirstStreamableBlock env"
  let ?L = "Number blk - Number blk mod 100"
  let ?w' = "w\<lparr>lowBlockNum := ?L, logger := logger w @ [Debug_initial_boundary ?L blk]\<rparr>"
  have fail: "ProcessBlock env w p = (Some (UnexpectedBlock blk (GetProtocolFirstStreamableBlock env)), w)"
    if "?bad"
    using that t z n by (simp add: ProcessBlock_def admit_def initialBlock_def)
  have L0: "?L \<noteq> 0" using lowBoundary_not_0 [OF n] by (simp add: lowBoundary_def)
  have ok: "initialBlock env w blk = Inr ?w'" if "\<not> ?bad"
    using that z n by (simp add: initialBlock_def lowBoundary_def)
  have ok': "initialBlock env ?w' blk = Inr ?w'"
    using L0 by (simp add: initialBlock_established)
  have same: "ProcessBlock env w p = ProcessBlock env ?w' p" if "\<not> ?bad"
    using t ok [OF that] ok' by (simp add: ProcessBlock_def admit_def)
  have noUnexpected: "fst (ProcessBlock env w p) \<noteq> Some (UnexpectedBlock b f)" if "\<not> ?bad" for b f
    using t ok [OF that]
    by (simp add: ProcessBlock_def admit_def nextBundle_def lastBundleBlock_def writeBundle_def Let_def
          split: option.splits prod.splits)
  have final: "lowBlockNum (snd (ProcessBlock env w p)) = ?L \<and> store (snd (ProcessBlock env w p)) = store w"
    if "\<not> ?bad" and "Number blk mod 100 \<noteq> 99" and "unat ?L + 99 < 2 ^ 64"
    using t ok [OF that(1)] that(2) in_own_bundle [of "Number blk"] last_of_bundle [of "Number blk"] that(3)
    by (simp add: ProcessBlock_def admit_def nextBundle_def lastBundleBlock_def lowBoundary_def)
  show ?thesis
  proof (cases ?bad)
    case True
    have "\<exists>b f. fst (ProcessBlock env w p) = Some (UnexpectedBlock b f)"
      using fail [OF True] by simp
    with True fail [OF True] show ?thesis by blast
  next
    case False
    have "\<not> (\<exists>b f. fst (ProcessBlock env w p) = Some (UnexpectedBlock b f))"
      using noUnexpected [OF False] by blast
    with False ok [OF False] same [OF False] final [OF False] show ?thesis by blast
  qed
qed


theorem initial_block_boundary_witness:
  "ProcessBlock (testEnv 1) (newWriter 0 False) (Some (block 150)) =
     (Some (UnexpectedBlock (block 150) 1), newWriter 0 False)
   \<and> lowBlockNum (snd (ProcessBlock (testEnv 250) (newWriter 0 False) (Some (block 250)))) = 200
   \<and> store (snd (ProcessBlock (testEnv 250) (newWriter 0 False) (Some (block 250)))) = []"
proof -
  have t: "tweak (newWriter 0 False) (Some (block n)) = Inr (Some (block n))" for n
    by (simp add: tweak_def newWriter_def)
  have z: "lowBlockNum (newWriter 0 False) = 0" by (simp add: newWriter_def)
  have n1: "Number (block 150) > 99" and n2: "Number (block 250) > 99" by (simp_all add: block_def)
  have bad: "Number (block 150) mod 100 \<noteq> 0
      \<and> Number (block 150) \<noteq> GetProtocolFirstStreamableBlock (testEnv 1)"
    by (simp add: block_def testEnv_def)
  have good: "\<not> (Number (block 250) mod 100 \<noteq> 0
      \<and> Number (block 250) \<noteq> GetProtocolFirstStreamableBlock (testEnv 250))"
    and inner: "Number (block 250) mod 100 \<noteq> 99
      \<and> unat (Number (block 250) - Number (block 250) mod 100) + 99 < 2 ^ 64"
    and val: "Number (block 250) - Number (block 250) mod 100 = 200"
    by (simp_all add: block_def testEnv_def)
  have "ProcessBlock (testEnv 1) (newWriter 0 False) (Some (block 150)) =
      (Some (UnexpectedBlock (block 150) (GetProtocolFirstStreamableBlock (testEnv 1))), newWriter 0 False)"
    using initial_block_boundary [OF t z n1, of "testEnv 1"] bad by blast
  moreover have "lowBlockNum (snd (ProcessBlock (testEnv 250) (newWriter 0 False) (Some (block 250)))) =
        Number (block 250) - Number (block 250) mod 100
      \<and> store (snd (ProcessBlock (testEnv 250) (newWriter 0 False) (Some (block 250)))) =
        store (newWriter 0 False)"
    using initial_block_boundary [OF t z n2, of "testEnv 250"] good inner by blast
  ultimately show ?thesis
    by (simp add: val) (simp add: testEnv_def newWriter_def)
qed

subsection \<open>The size of a bundle\<close>

text \<open>
  When the check is made. Let \<open>blk\<close> be the block that a call appends to the buffer of
  \<open>w1\<close>, the writer as it is after the steps before the append, and let its number be the
  boundary plus 99. Then \<^verbatim>\<open>ProcessBlock\<close> returns the error "failed to check bundle
  size" if and only if \<^verbatim>\<open>checkBundleSize\<close> is set, the buffer with \<open>blk\<close> does not hold
  100 blocks, and the number of \<open>blk\<close> is at least 100, which (unless the boundary plus 99
  wraps around) says that the boundary is not 0. The error carries the length of the
  buffer and the boundary. Before it is returned \<^verbatim>\<open>checkDuplicateNumbers\<close> and then
  \<^verbatim>\<open>checkDuplicateIds\<close> are run, and the buffer is not written: the store is as it was
  at the append, the buffer keeps its blocks and the boundary stays.
\<close>

lemma bundle_size_check:
  assumes a: "admit env w p = Inr (blk, w1)" and l: "Number blk = lowBlockNum w1 + 99"
  shows "((\<exists>k b. fst (ProcessBlock env w p) = Some (BundleSize k b))
            = (checkBundleSize w1 \<and> length (blocks w1 @ [blk]) \<noteq> 100 \<and> Number blk \<ge> 100))
       \<and> (checkBundleSize w1 \<and> length (blocks w1 @ [blk]) \<noteq> 100 \<and> Number blk \<ge> 100 \<longrightarrow>
            ProcessBlock env w p =
              (Some (BundleSize (length (blocks w1 @ [blk])) (lowBlockNum w1)),
               checkDuplicateIds (checkDuplicateNumbers
                 (w1\<lparr>blocks := blocks w1 @ [blk],
                     logger := logger w1 @ [Debug_last_bundle_block (lowBlockNum w1 + 99)]\<rparr>)))
          \<and> store (snd (ProcessBlock env w p)) = store w1
          \<and> blocks (snd (ProcessBlock env w p)) = blocks w1 @ [blk]
          \<and> lowBlockNum (snd (ProcessBlock env w p)) = lowBlockNum w1)
       \<and> (unat (lowBlockNum w1) + 99 < 2 ^ 64 \<longrightarrow> (Number blk \<ge> 100) = (lowBlockNum w1 \<noteq> 0))"
proof -
  let ?c = "checkBundleSize w1 \<and> length (blocks w1 @ [blk]) \<noteq> 100 \<and> Number blk \<ge> 100"
  let ?w2 = "w1\<lparr>blocks := blocks w1 @ [blk], logger := logger w1 @ [Debug_last_bundle_block (lowBlockNum w1 + 99)]\<rparr>"
  have pb: "ProcessBlock env w p = lastBundleBlock env (w1\<lparr>blocks := blocks w1 @ [blk]\<rparr>) blk"
    using a by (simp add: ProcessBlock_def)
  have raise: "ProcessBlock env w p =
      (Some (BundleSize (length (blocks w1 @ [blk])) (lowBlockNum w1)), checkDuplicateIds (checkDuplicateNumbers ?w2))"
    if ?c
    using that l by (simp add: pb lastBundleBlock_def)
  have fields: "store (snd (ProcessBlock env w p)) = store w1
      \<and> blocks (snd (ProcessBlock env w p)) = blocks w1 @ [blk]
      \<and> lowBlockNum (snd (ProcessBlock env w p)) = lowBlockNum w1"
    if ?c
    by (simp add: raise [OF that] checkDuplicateIds_def checkDuplicateNumbers_def)
  have quiet: "fst (ProcessBlock env w p) \<noteq> Some (BundleSize k b)" if "\<not> ?c" for k b
    using that l
    by (auto simp add: pb lastBundleBlock_def writeBundle_def Let_def)
  have first: "(Number blk \<ge> 100) = (lowBlockNum w1 \<noteq> 0)" if "unat (lowBlockNum w1) + 99 < 2 ^ 64"
  proof -
    have "unat (Number blk) = unat (lowBlockNum w1) + 99" using that l by (simp add: unat_plus99)
    then have "(100 \<le> unat (Number blk)) = (unat (lowBlockNum w1) \<noteq> 0)" by arith
    then show ?thesis by (simp add: word_le_nat_alt unat_eq_0)
  qed
  show ?thesis
  proof (cases ?c)
    case True
    have "\<exists>k b. fst (ProcessBlock env w p) = Some (BundleSize k b)" using raise [OF True] by simp
    with True raise [OF True] fields [OF True] first show ?thesis by blast
  next
    case False
    have "\<not> (\<exists>k b. fst (ProcessBlock env w p) = Some (BundleSize k b))" using quiet [OF False] by blast
    with False first show ?thesis by blast
  qed
qed

text \<open>A bundle of 57 blocks with boundary 200, and the bundle of boundary 0.\<close>

lemma bundle_size_check_example:
  "admit (testEnv 1) ((newWriter 0 True)\<lparr>lowBlockNum := 200, blocks := map block [200..<256]\<rparr>) (Some (block 299))
     = Inr (block 299, (newWriter 0 True)\<lparr>lowBlockNum := 200, blocks := map block [200..<256]\<rparr>)
   \<and> Number (block 299) = lowBlockNum ((newWriter 0 True)\<lparr>lowBlockNum := 200, blocks := map block [200..<256]\<rparr>) + 99
   \<and> fst (ProcessBlock (testEnv 1) ((newWriter 0 True)\<lparr>lowBlockNum := 200, blocks := map block [200..<256]\<rparr>)
        (Some (block 299))) = Some (BundleSize 57 200)
   \<and> store (snd (ProcessBlock (testEnv 1) ((newWriter 0 True)\<lparr>lowBlockNum := 200, blocks := map block [200..<256]\<rparr>)
        (Some (block 299)))) = []
   \<and> fst (ProcessBlock (testEnv 1) (newWriter 0 True) (Some (block 99))) \<noteq> Some (BundleSize 1 0)"
proof -
  let ?w = "(newWriter 0 True)\<lparr>lowBlockNum := 200, blocks := map block [200..<256]\<rparr>"
  have a: "admit (testEnv 1) ?w (Some (block 299)) = Inr (block 299, ?w)"
    by (simp add: admit_def tweak_def initialBlock_def nextBundle_def newWriter_def block_def)
  have l: "Number (block 299) = lowBlockNum ?w + 99" by (simp add: newWriter_def block_def)
  have c: "checkBundleSize ?w \<and> length (blocks ?w @ [block 299]) \<noteq> 100 \<and> Number (block 299) \<ge> 100"
    by (simp add: newWriter_def block_def)
  have a0: "admit (testEnv 1) (newWriter 0 True) (Some (block 99)) = Inr (block 99, newWriter 0 True)"
    by (simp add: admit_def tweak_def initialBlock_def nextBundle_def newWriter_def block_def)
  have l0: "Number (block 99) = lowBlockNum (newWriter 0 True) + 99" by (simp add: newWriter_def block_def)
  have c0: "\<not> (checkBundleSize (newWriter 0 True) \<and> length (blocks (newWriter 0 True) @ [block 99]) \<noteq> 100
      \<and> Number (block 99) \<ge> 100)"
    by (simp add: block_def)
  have len: "length (blocks ?w @ [block 299]) = 57" and low: "lowBlockNum ?w = 200"
    and st: "store ?w = []"
    by (simp_all add: newWriter_def)
  have pb: "ProcessBlock (testEnv 1) ?w (Some (block 299)) =
          (Some (BundleSize (length (blocks ?w @ [block 299])) (lowBlockNum ?w)),
           checkDuplicateIds (checkDuplicateNumbers
             (?w\<lparr>blocks := blocks ?w @ [block 299],
                 logger := logger ?w @ [Debug_last_bundle_block (lowBlockNum ?w + 99)]\<rparr>)))"
    and sto: "store (snd (ProcessBlock (testEnv 1) ?w (Some (block 299)))) = store ?w"
    using bundle_size_check [OF a l] c by blast+
  have r: "fst (ProcessBlock (testEnv 1) ?w (Some (block 299))) = Some (BundleSize 57 200)"
    by (simp only: pb len low fst_conv)
  have e: "store (snd (ProcessBlock (testEnv 1) ?w (Some (block 299)))) = []"
    by (simp only: sto st)
  have "fst (ProcessBlock (testEnv 1) (newWriter 0 True) (Some (block 99))) \<noteq> Some (BundleSize 1 0)"
    using bundle_size_check [OF a0 l0] c0 by blast
  with a l r e show ?thesis by blast
qed

subsection \<open>The stop block\<close>

text \<open>
  Claim C7, as stated: with a stop block configured and an incoming block at or beyond it,
  \<^verbatim>\<open>ProcessBlock\<close> returns \<^verbatim>\<open>io.EOF\<close>. It fails when a step before the stop check
  returns: with a stop block of 300, a writer that has seen no block returns "received
  unexpected block" for block 350.
\<close>

theorem stop_block_counterexample:
  "tweakBlock (newWriter 300 False) = None
   \<and> 0 < stopBlockNum (newWriter 300 False)
   \<and> stopBlockNum (newWriter 300 False) \<le> Number (block 350)
   \<and> ProcessBlock (testEnv 1) (newWriter 300 False) (Some (block 350)) =
       (Some (UnexpectedBlock (block 350) 1), newWriter 300 False)
   \<and> fst (ProcessBlock (testEnv 1) (newWriter 300 False) (Some (block 350))) \<noteq> Some EOF"
  by (simp add: ProcessBlock_def admit_def tweak_def initialBlock_def newWriter_def block_def testEnv_def)

text \<open>
  Claim C7, amended. Let a stop block be configured and the number of the incoming block
  (after the hook) be at or beyond it. Then \<^verbatim>\<open>ProcessBlock\<close> never returns nil, and it
  returns \<^verbatim>\<open>io.EOF\<close> if and only if the steps before the stop check do not fail: the
  block is not rejected as an initial block, and when it lies beyond the current bundle the
  buffer is not empty and the store accepts it. When the block lies within the current
  bundle, \<^verbatim>\<open>io.EOF\<close> is returned with buffer, store and boundary as they were. In every
  case the block is not appended, the buffer afterwards being the old one or empty, and it
  is not written, the store getting at most the stream of the old buffer. For a stop
  block of 300, block 299 is appended and written with its bundle, and block 300 then
  gets \<^verbatim>\<open>io.EOF\<close>.
\<close>

theorem stop_block:
  assumes t: "tweak w p = Inr (Some blk)" and s: "stopBlockNum w > 0" and n: "Number blk \<ge> stopBlockNum w"
  shows "let L = (if lowBlockNum w = 0 \<and> 99 < Number blk then lowBoundary (Number blk) else lowBlockNum w);
             rejected = (lowBlockNum w = 0 \<and> 99 < Number blk \<and> Number blk mod 100 \<noteq> 0
                         \<and> Number blk \<noteq> GetProtocolFirstStreamableBlock env);
             overflow = (L + 99 < Number blk);
             written = (blocks w \<noteq> [] \<and> WriteObject env (store w) (filename L) (pipe env (blocks w)) = None);
             r = ProcessBlock env w p
         in fst r \<noteq> None
          \<and> (fst r = Some EOF) = (\<not> rejected \<and> (overflow \<longrightarrow> written))
          \<and> (\<not> rejected \<and> \<not> overflow \<longrightarrow>
                fst r = Some EOF \<and> blocks (snd r) = blocks w \<and> store (snd r) = store w \<and> lowBlockNum (snd r) = L)
          \<and> (\<not> rejected \<and> overflow \<and> written \<longrightarrow>
                fst r = Some EOF \<and> blocks (snd r) = []
              \<and> store (snd r) = store w @ [(filename L, pipe env (blocks w))] \<and> lowBlockNum (snd r) = L + 100)
          \<and> (blocks (snd r) = blocks w \<or> blocks (snd r) = [])
          \<and> (store (snd r) = store w \<or> store (snd r) = store w @ [(filename L, pipe env (blocks w))])"
proof (cases "lowBlockNum w = 0 \<and> 99 < Number blk")
  case True
  show ?thesis
  proof (cases "Number blk mod 100 \<noteq> 0 \<and> Number blk \<noteq> GetProtocolFirstStreamableBlock env")
    case bad: True
    show ?thesis using t True bad
      by (simp add: ProcessBlock_def admit_def initialBlock_def Let_def)
  next
    case good: False
    show ?thesis using t s n True good
      by (auto simp add: ProcessBlock_def admit_def initialBlock_def nextBundle_def writeBundle_def Let_def
            split: option.splits)
  qed
next
  case False
  then have i: "initialBlock env w blk = Inr w" by (auto simp add: initialBlock_def)
  show ?thesis using t s n False i
    by (auto simp add: ProcessBlock_def admit_def nextBundle_def writeBundle_def Let_def
          split: option.splits)
qed


theorem stop_block_witness:
  "ProcessBlock (testEnv 1) ((newWriter 300 False)\<lparr>lowBlockNum := 200, blocks := [block 200]\<rparr>) (Some (block 299)) =
     (None, (newWriter 300 False)\<lparr>lowBlockNum := 300,
        store := [(''0000000200'', [0, 99], None)],
        logger := [Debug_last_bundle_block 299, Info_writing ''0000000200'' 200]\<rparr>)
   \<and> ProcessBlock (testEnv 1) ((newWriter 300 False)\<lparr>lowBlockNum := 300,
        store := [(''0000000200'', [0, 99], None)],
        logger := [Debug_last_bundle_block 299, Info_writing ''0000000200'' 200]\<rparr>) (Some (block 300)) =
     (Some EOF, (newWriter 300 False)\<lparr>lowBlockNum := 300,
        store := [(''0000000200'', [0, 99], None)],
        logger := [Debug_last_bundle_block 299, Info_writing ''0000000200'' 200]\<rparr>)"
proof -
  let ?w = "(newWriter 300 False)\<lparr>lowBlockNum := 300,
        store := [(''0000000200'', [0, 99], None)],
        logger := [Debug_last_bundle_block 299, Info_writing ''0000000200'' 200]\<rparr>"
  have first: "ProcessBlock (testEnv 1) ((newWriter 300 False)\<lparr>lowBlockNum := 200, blocks := [block 200]\<rparr>)
      (Some (block 299)) = (None, ?w)"
    by (simp add: ProcessBlock_def admit_def tweak_def initialBlock_def nextBundle_def lastBundleBlock_def
          writeBundle_def pipe_def newWriter_def block_def testEnv_def okStore_def payloadWrite_def filename_200 Let_def)
  have t: "tweak ?w (Some (block 300)) = Inr (Some (block 300))" by (simp add: tweak_def newWriter_def)
  have s: "stopBlockNum ?w > 0" by (simp add: newWriter_def)
  have n: "Number (block 300) \<ge> stopBlockNum ?w" by (simp add: newWriter_def block_def)
  have "fst (ProcessBlock (testEnv 1) ?w (Some (block 300))) = Some EOF
      \<and> blocks (snd (ProcessBlock (testEnv 1) ?w (Some (block 300)))) = blocks ?w
      \<and> store (snd (ProcessBlock (testEnv 1) ?w (Some (block 300)))) = store ?w"
    using stop_block [OF t s n, of "testEnv 1"] by (simp add: Let_def newWriter_def block_def)
  moreover have "ProcessBlock (testEnv 1) ?w (Some (block 300)) = (Some EOF, ?w)"
    by (simp add: ProcessBlock_def admit_def tweak_def initialBlock_def nextBundle_def newWriter_def block_def)
  ultimately show ?thesis using first by simp
qed

subsection \<open>Feeding a whole bundle\<close>

lemma unat_plus_nat: "unat (b::uint64) + i < 2 ^ 64 \<Longrightarrow> unat (b + of_nat i) = unat b + i"
proof -
  assume a: "unat b + i < 2 ^ 64"
  then have i: "unat (of_nat i :: uint64) = i" by (simp add: unat_of_nat)
  with a have "unat b + unat (of_nat i :: uint64) < 2 ^ LENGTH(64)" by simp
  then have "unat (b + of_nat i) = unat b + unat (of_nat i :: uint64)"
    by (simp only: unat_add_lem)
  with i show ?thesis by simp
qed

lemma tweak_None: "tweakBlock w = None \<Longrightarrow> tweak w p = Inr p"
  by (simp add: tweak_def)

lemma initialBlock_skip:
  "\<not> (lowBlockNum w = 0 \<and> 99 < Number blk) \<Longrightarrow> initialBlock env w blk = Inr w"
  by (auto simp add: initialBlock_def)

lemma nextBundle_skip:
  "\<not> lowBlockNum w + 99 < Number blk \<Longrightarrow> nextBundle env w blk = (None, w)"
  by (simp add: nextBundle_def)

lemma admit_within:
  assumes "tweakBlock w = None" and "stopBlockNum w = 0"
    and "\<not> (lowBlockNum w = 0 \<and> 99 < Number blk)" and "\<not> lowBlockNum w + 99 < Number blk"
  shows "admit env w (Some blk) = Inr (blk, w)"
  using assms(2) tweak_None [OF assms(1)] initialBlock_skip [OF assms(3)] nextBundle_skip [OF assms(4)]
  by (simp add: admit_def)

lemma ProcessBlock_within:
  assumes "tweakBlock w = None" and "stopBlockNum w = 0"
    and "\<not> (lowBlockNum w = 0 \<and> 99 < Number blk)"
    and "\<not> lowBlockNum w + 99 < Number blk" and "Number blk \<noteq> lowBlockNum w + 99"
  shows "ProcessBlock env w (Some blk) = (None, w\<lparr>blocks := blocks w @ [blk]\<rparr>)"
  using assms(5) admit_within [OF assms(1-4)]
  by (simp add: ProcessBlock_def lastBundleBlock_def)

lemma within_bundle:
  assumes "unat (b::uint64) + 99 < 2 ^ 64" and "unat b \<le> unat n" and "unat n < unat b + 99"
  shows "\<not> (b = 0 \<and> 99 < n)" and "\<not> b + 99 < n" and "n \<noteq> b + 99"
proof -
  have p: "unat (b + 99) = unat b + 99" using assms(1) by (rule unat_plus99)
  show "\<not> (b = 0 \<and> 99 < n)" using assms by (auto simp add: word_less_nat_alt)
  show "\<not> b + 99 < n" using assms p by (simp add: word_less_nat_alt)
  show "n \<noteq> b + 99" using assms p by auto
qed

lemma feed_within:
  assumes "tweakBlock w = None" and "stopBlockNum w = 0" and "unat (lowBlockNum w) + 99 < 2 ^ 64"
    and "\<forall>blk\<in>set blks. unat (lowBlockNum w) \<le> unat (Number blk)
            \<and> unat (Number blk) < unat (lowBlockNum w) + 99"
  shows "feed env w blks = (replicate (length blks) None, w\<lparr>blocks := blocks w @ blks\<rparr>)"
  using assms
proof (induction blks arbitrary: w)
  case Nil
  then show ?case by simp
next
  case (Cons blk blks)
  let ?w = "w\<lparr>blocks := blocks w @ [blk]\<rparr>"
  have b: "unat (lowBlockNum w) \<le> unat (Number blk)" "unat (Number blk) < unat (lowBlockNum w) + 99"
    using Cons.prems(4) by simp_all
  have step: "ProcessBlock env w (Some blk) = (None, ?w)"
    using Cons.prems(1,2) within_bundle [OF Cons.prems(3) b]
    by (rule ProcessBlock_within)
  have "feed env ?w blks = (replicate (length blks) None, ?w\<lparr>blocks := blocks ?w @ blks\<rparr>)"
    using Cons.prems by (intro Cons.IH) simp_all
  with step show ?case by simp
qed

lemma feed_append:
  "feed env w (xs @ ys) =
     (case feed env w xs of (rs, w') \<Rightarrow> (case feed env w' ys of (rs', w'') \<Rightarrow> (rs @ rs', w'')))"
  by (induction xs arbitrary: w) (simp_all split: prod.splits)

lemma ProcessBlock_first:
  assumes "tweakBlock w = None" and "stopBlockNum w = 0" and "lowBlockNum w = 0"
    and "Number blk mod 100 = 0" and "unat (Number blk) + 99 < 2 ^ 64"
  shows "ProcessBlock env w (Some blk) =
           (None, w\<lparr>lowBlockNum := Number blk,
                    logger := logger w @ (if Number blk = 0 then [] else [Debug_initial_boundary (Number blk) blk]),
                    blocks := blocks w @ [blk]\<rparr>)"
proof (cases "Number blk = 0")
  case True
  then have "ProcessBlock env w (Some blk) = (None, w\<lparr>blocks := blocks w @ [blk]\<rparr>)"
    using assms by (intro ProcessBlock_within) simp_all
  then show ?thesis using True assms(3) by simp
next
  case False
  have lb: "lowBoundary (Number blk) = Number blk" using assms(4) by (simp add: lowBoundary_def)
  have u: "unat (Number blk) mod 100 = 0" using assms(4) by (simp add: word_unat_eq_iff unat_mod)
  have "unat (Number blk) \<noteq> 0" using False by (simp add: unat_eq_0)
  with u have "100 \<le> unat (Number blk)" by arith
  then have gt: "99 < Number blk" by (simp add: word_less_nat_alt)
  have p: "unat (Number blk + 99) = unat (Number blk) + 99" using assms(5) by (rule unat_plus99)
  have no: "\<not> Number blk + 99 < Number blk" using p by (simp add: word_less_nat_alt)
  have ne: "Number blk \<noteq> Number blk + 99" using p by auto
  let ?w = "w\<lparr>lowBlockNum := Number blk, logger := logger w @ [Debug_initial_boundary (Number blk) blk]\<rparr>"
  have i: "initialBlock env w blk = Inr ?w"
    using assms(3,4) gt lb by (simp add: initialBlock_def)
  have nb: "nextBundle env ?w blk = (None, ?w)" using no by (simp add: nextBundle_def)
  show ?thesis using assms(2) tweak_None [OF assms(1)] i nb ne False
    by (simp add: ProcessBlock_def admit_def lastBundleBlock_def)
qed

lemma ProcessBlock_last:
  assumes "tweakBlock w = None" and "stopBlockNum w = 0"
    and "Number blk = lowBlockNum w + 99" and "unat (lowBlockNum w) + 99 < 2 ^ 64"
    and "length (blocks w) = 99"
  shows "ProcessBlock env w (Some blk) =
           writeBundle env (w\<lparr>blocks := blocks w @ [blk],
              logger := logger w @ [Debug_last_bundle_block (lowBlockNum w + 99)]\<rparr>)"
proof -
  have p: "unat (lowBlockNum w + 99) = unat (lowBlockNum w) + 99" using assms(4) by (rule unat_plus99)
  have a: "\<not> (lowBlockNum w = 0 \<and> 99 < Number blk)" using assms(3) by auto
  have b: "\<not> lowBlockNum w + 99 < Number blk" using assms(3) by simp
  show ?thesis using assms(3,5) admit_within [OF assms(1,2) a b]
    by (simp add: ProcessBlock_def lastBundleBlock_def)
qed


lemma feed_bundle:
  assumes tw: "tweakBlock w = None" and st: "stopBlockNum w = 0"
    and lo: "lowBlockNum w = 0" and em: "blocks w = []"
    and bm: "b mod 100 = 0" and bo: "unat b + 99 < 2 ^ 64"
    and nu: "map Number blks = map (\<lambda>i. b + of_nat i) [0..<100]"
  shows "feed env w blks =
    (replicate 99 None @ [map_option Downstream (WriteObject env (store w) (filename b) (pipe env blks))],
     w\<lparr>lowBlockNum := b + 100, blocks := [],
        store := store w @ [(filename b, pipe env blks)],
        logger := logger w @ (if b = 0 then [] else [Debug_initial_boundary b (hd blks)])
           @ [Debug_last_bundle_block (b + 99), Info_writing (filename b) b]
           @ (case WriteObject env (store w) (filename b) (pipe env blks) of
                None \<Rightarrow> [] | Some e \<Rightarrow> [Error_writing e])\<rparr>)"
proof -
  have len: "length blks = 100" using nu by (metis length_map length_upt minus_nat.diff_0)
  have nth: "Number (blks ! i) = b + of_nat i" if "i < 100" for i
  proof -
    have "map Number blks ! i = map (\<lambda>i. b + of_nat i) [0..<100] ! i" using nu by simp
    then show ?thesis using that len by simp
  qed
  define blk0 where "blk0 = hd blks"
  define mid where "mid = butlast (tl blks)"
  define blkL where "blkL = last blks"
  have ne: "blks \<noteq> []" and ne': "tl blks \<noteq> []" using len by (auto simp add: length_0_conv [symmetric] simp del: length_0_conv)
  have dec: "blks = blk0 # mid @ [blkL]"
    unfolding blk0_def mid_def blkL_def using ne ne'
    by (metis append_butlast_last_id last_tl list.collapse)
  have lm: "length mid = 98" unfolding mid_def using len by simp
  have n0: "Number blk0 = b" using nth [of 0] dec by simp
  have nL: "Number blkL = b + 99"
  proof -
    have "blks ! 99 = blkL" using lm by (subst dec) (simp add: nth_append)
    then show ?thesis using nth [of 99] by simp
  qed
  have nm: "unat b \<le> unat (Number x) \<and> unat (Number x) < unat b + 99" if "x \<in> set mid" for x
  proof -
    from that obtain j where j: "j < 98" "x = mid ! j" using lm by (metis in_set_conv_nth)
    have "blks ! Suc j = mid ! j" using j(1) lm by (subst dec) (simp add: nth_append)
    then have "Number x = b + of_nat (Suc j)" using nth [of "Suc j"] j by simp
    moreover have "unat (b + of_nat (Suc j)) = unat b + Suc j"
      using bo j(1) by (intro unat_plus_nat) simp
    ultimately show ?thesis using j(1) by simp
  qed
  let ?w1 = "w\<lparr>lowBlockNum := b,
      logger := logger w @ (if b = 0 then [] else [Debug_initial_boundary b blk0]),
      blocks := [blk0]\<rparr>"
  have s1: "ProcessBlock env w (Some blk0) = (None, ?w1)"
    using ProcessBlock_first [OF tw st lo, of blk0 env] bm bo em by (simp add: n0)
  let ?w2 = "?w1\<lparr>blocks := blocks ?w1 @ mid\<rparr>"
  have s2: "feed env ?w1 mid = (replicate (length mid) None, ?w2)"
    using tw st bo nm by (intro feed_within) simp_all
  have s3: "ProcessBlock env ?w2 (Some blkL) =
      writeBundle env (?w2\<lparr>blocks := blocks ?w2 @ [blkL],
        logger := logger ?w2 @ [Debug_last_bundle_block (lowBlockNum ?w2 + 99)]\<rparr>)"
    using tw st bo nL lm by (intro ProcessBlock_last) simp_all
  have bl: "blocks ?w2 @ [blkL] = blks" by (simp add: dec)
  have h: "hd blks = blk0" by (simp add: blk0_def)
  have "feed env w blks = feed env w (blk0 # mid @ [blkL])" by (simp add: dec [symmetric])
  also have "\<dots> = (case feed env ?w1 (mid @ [blkL]) of (rs, w'') \<Rightarrow> (None # rs, w''))"
    by (simp add: s1)
  also have "\<dots> = (case ProcessBlock env ?w2 (Some blkL) of (r, w'') \<Rightarrow> (None # replicate 98 None @ [r], w''))"
    by (simp add: feed_append s2 lm split: prod.splits)
  finally have f: "feed env w blks =
      (case ProcessBlock env ?w2 (Some blkL) of (r, w'') \<Rightarrow> (None # replicate 98 None @ [r], w''))" .
  have r99: "None # replicate 98 None @ [r] = replicate 99 None @ [r]" for r :: "error option"
    by (simp add: numeral_eq_Suc)
  show ?thesis
    unfolding f s3 using bl h ne
    by (simp add: writeBundle_def Let_def r99 split: option.splits)
qed

lemma Number_blocksFrom: "map Number (blocksFrom b k) = map (\<lambda>i. of_nat b + of_nat i) [0..<k]"
  by (simp add: blocksFrom_def block_def)

text \<open>
  Claim C1, as stated: the 100 blocks of a bundle, fed in order to a writer that has seen no
  block, give one call of the store with the 10-digit name of the boundary, and every
  \<^verbatim>\<open>ProcessBlock\<close> returns nil. It fails in two ways. When the store refuses the
  object, the last call returns the error of the store. When the boundary has more than
  10 digits, so has the name: the boundary 10000000000 gives a name of 11 characters.
\<close>

theorem full_bundle_counterexample:
  "fst (feed (failingEnv 1) (newWriter 0 False) (blocksFrom 0 100)) =
     replicate 99 None @ [Some (Downstream ''unavailable'')]
   \<and> store (snd (feed (testEnv 1) (newWriter 0 False) (blocksFrom 10000000000 100))) =
     [(''10000000000'', pipe (testEnv 1) (blocksFrom 10000000000 100))]
   \<and> length ''10000000000'' = 11"
proof -
  have a: "tweakBlock (newWriter 0 False) = None" "stopBlockNum (newWriter 0 False) = 0"
    "lowBlockNum (newWriter 0 False) = 0" "blocks (newWriter 0 False) = []"
    by (simp_all add: newWriter_def)
  have b0: "(0::uint64) mod 100 = 0" "unat (0::uint64) + 99 < 2 ^ 64" by simp_all
  have n0: "map Number (blocksFrom 0 100) = map (\<lambda>i. 0 + of_nat i) [0..<100]"
    using Number_blocksFrom [of 0 100] by simp
  have b1: "(10000000000::uint64) mod 100 = 0" "unat (10000000000::uint64) + 99 < 2 ^ 64" by simp_all
  have n1: "map Number (blocksFrom 10000000000 100) = map (\<lambda>i. 10000000000 + of_nat i) [0..<100]"
    using Number_blocksFrom [of 10000000000 100] by simp
  have f: "filename 10000000000 = ''10000000000''" by (simp add: filename_eval)
  have "fst (feed (failingEnv 1) (newWriter 0 False) (blocksFrom 0 100)) =
     replicate 99 None @ [Some (Downstream ''unavailable'')]"
    by (simp add: feed_bundle [OF a b0 n0] failingEnv_def failingStore_def)
  moreover have "store (snd (feed (testEnv 1) (newWriter 0 False) (blocksFrom 10000000000 100))) =
     store (newWriter 0 False) @ [(filename 10000000000, pipe (testEnv 1) (blocksFrom 10000000000 100))]"
    by (simp add: feed_bundle [OF a b1 n1])
  then have "store (snd (feed (testEnv 1) (newWriter 0 False) (blocksFrom 10000000000 100))) =
     [(''10000000000'', pipe (testEnv 1) (blocksFrom 10000000000 100))]"
    by (simp add: f newWriter_def)
  ultimately show ?thesis by simp
qed

text \<open>
  Claim C1, amended. Let \<open>b\<close> be a multiple of 100 with \<open>b + 99\<close> in \<^verbatim>\<open>uint64\<close>, and
  let 100 blocks numbered \<open>b\<close> to \<open>b + 99\<close> be fed in order to a writer with boundary 0, an
  empty buffer, no hook and no stop block, whatever \<^verbatim>\<open>checkBundleSize\<close> is. Then the
  first 99 calls return nil and the last call returns what the store returns, nil if and
  only if the store accepts the object. There is one flush: the store is called once,
  the log has one line "writing merged file", the boundary ends at \<open>b + 100\<close> and the
  buffer is empty. The name given to the store is \<open>filename b\<close>: decimal digits only,
  which read back as \<open>b\<close>, at least 10 of them and exactly 10 if and only if
  \<open>b < 10^10\<close>. The stream given to the store is that of the 100 blocks in the order fed:
  when the block writer reports no error, it is the bytes of the header followed by the
  bytes of each block in that order.
\<close>

theorem full_bundle:
  assumes "tweakBlock w = None" and "stopBlockNum w = 0" and "lowBlockNum w = 0" and "blocks w = []"
    and "b mod 100 = 0" and "unat b + 99 < 2 ^ 64"
    and "map Number blks = map (\<lambda>i. b + of_nat i) [0..<100]"
  shows "feed env w blks =
          (replicate 99 None @ [map_option Downstream (WriteObject env (store w) (filename b) (pipe env blks))],
           w\<lparr>lowBlockNum := b + 100, blocks := [],
              store := store w @ [(filename b, pipe env blks)],
              logger := logger w @ (if b = 0 then [] else [Debug_initial_boundary b (hd blks)])
                 @ [Debug_last_bundle_block (b + 99), Info_writing (filename b) b]
                 @ (case WriteObject env (store w) (filename b) (pipe env blks) of
                      None \<Rightarrow> [] | Some e \<Rightarrow> [Error_writing e])\<rparr>)
       \<and> 10 \<le> length (filename b) \<and> (length (filename b) = 10) = (unat b < 10 ^ 10)
       \<and> set (filename b) \<subseteq> set ''0123456789'' \<and> number (filename b) = unat b
       \<and> (snd (New env) = None \<and> (\<forall>blk\<in>set blks. snd (Write env blk) = None) \<longrightarrow>
            pipe env blks = (fst (New env) @ concat (map (\<lambda>blk. fst (Write env blk)) blks), None))"
  using feed_bundle [OF assms, of env] length_filename [of b] set_filename [of b] number_filename [of b]
    pipe_ok [of env blks]
  by blast

theorem full_bundle_witness:
  "feed (testEnv 1) (newWriter 0 True) (blocksFrom 200 100) =
     (replicate 99 None @ [None],
      (newWriter 0 True)\<lparr>lowBlockNum := 300, blocks := [],
         store := [(''0000000200'', pipe (testEnv 1) (blocksFrom 200 100))],
         logger := [Debug_initial_boundary 200 (block 200), Debug_last_bundle_block 299,
                    Info_writing ''0000000200'' 200]\<rparr>)
   \<and> pipe (testEnv 1) (blocksFrom 200 100) = (concat (map Payload (blocksFrom 200 100)), None)"
proof -
  have a: "tweakBlock (newWriter 0 True) = None" "stopBlockNum (newWriter 0 True) = 0"
    "lowBlockNum (newWriter 0 True) = 0" "blocks (newWriter 0 True) = []"
    by (simp_all add: newWriter_def)
  have b: "(200::uint64) mod 100 = 0" "unat (200::uint64) + 99 < 2 ^ 64" by simp_all
  have n: "map Number (blocksFrom 200 100) = map (\<lambda>i. 200 + of_nat i) [0..<100]"
    using Number_blocksFrom [of 200 100] by simp
  have h: "hd (blocksFrom 200 100) = block 200"
    by (simp add: blocksFrom_def upt_conv_Cons)
  have ok: "snd (New (testEnv 1)) = None \<and> (\<forall>blk\<in>set (blocksFrom 200 100). snd (Write (testEnv 1) blk) = None)"
    by (simp add: testEnv_def payloadWrite_def)
  have w: "WriteObject (testEnv 1) st name content = None" for st name content
    by (simp add: testEnv_def okStore_def)
  have p: "fst (New (testEnv 1)) = []" "(\<lambda>blk. fst (Write (testEnv 1) blk)) = Payload"
    by (simp_all add: testEnv_def payloadWrite_def fun_eq_iff)
  note fb = full_bundle [OF a b n, of "testEnv 1"]
  have "feed (testEnv 1) (newWriter 0 True) (blocksFrom 200 100) =
     (replicate 99 None @ [None],
      (newWriter 0 True)\<lparr>lowBlockNum := 300, blocks := [],
         store := [(''0000000200'', pipe (testEnv 1) (blocksFrom 200 100))],
         logger := [Debug_initial_boundary 200 (block 200), Debug_last_bundle_block 299,
                    Info_writing ''0000000200'' 200]\<rparr>)"
    using fb [THEN conjunct1] by (simp add: w h filename_200 newWriter_def)
  moreover have "pipe (testEnv 1) (blocksFrom 200 100) = (concat (map Payload (blocksFrom 200 100)), None)"
    using fb ok by (simp add: p)
  ultimately show ?thesis by simp
qed

subsection \<open>A block beyond bundle 0\<close>

text \<open>
  Claim C2 says that the blocks 0 to 49 followed by block 150 give one flush of the 50
  blocks under the name of boundary 0, after which the call returns nil and block 150
  starts the next bundle. The source does otherwise: while the writer fills bundle 0 its
  boundary is 0, which is also how it tells that no block was seen, so block 150 takes
  the branch of the initial block. When 150 is not the first streamable block, the call
  returns "received unexpected block"; nothing is written and the 50 blocks stay in the
  buffer.
\<close>

theorem skipped_boundary_rejected:
  assumes tw: "tweakBlock w = None" and st: "stopBlockNum w = 0"
    and lo: "lowBlockNum w = 0" and em: "blocks w = []"
    and nu: "map Number blks = map of_nat [0..<50]"
    and n: "Number blk = 150" and f: "GetProtocolFirstStreamableBlock env \<noteq> 150"
  shows "feed env w (blks @ [blk]) =
           (replicate 50 None @ [Some (UnexpectedBlock blk (GetProtocolFirstStreamableBlock env))],
            w\<lparr>blocks := blks\<rparr>)"
proof -
  have len: "length blks = 50" using nu by (metis length_map length_upt minus_nat.diff_0)
  have within: "unat (lowBlockNum w) \<le> unat (Number x) \<and> unat (Number x) < unat (lowBlockNum w) + 99"
    if "x \<in> set blks" for x
  proof -
    from that obtain j where j: "j < 50" "x = blks ! j" using len by (metis in_set_conv_nth)
    have "map Number blks ! j = map of_nat [0..<50] ! j" using nu by simp
    then have "Number x = of_nat j" using j len by simp
    then have "unat (Number x) = j" using j(1) by (simp add: unat_of_nat)
    then show ?thesis using j(1) lo by simp
  qed
  have s1: "feed env w blks = (replicate (length blks) None, w\<lparr>blocks := blocks w @ blks\<rparr>)"
    using tw st within by (intro feed_within) (simp_all add: lo)
  let ?w = "w\<lparr>blocks := blks\<rparr>"
  have s2: "ProcessBlock env ?w (Some blk) =
      (Some (UnexpectedBlock blk (GetProtocolFirstStreamableBlock env)), ?w)"
    using tw lo n f by (simp add: ProcessBlock_def admit_def tweak_def initialBlock_def)
  show ?thesis by (simp add: feed_append s1 em s2 len)
qed

theorem skipped_boundary_rejected_witness:
  "feed (testEnv 1) (newWriter 0 False) (blocksFrom 0 50 @ [block 150]) =
     (replicate 50 None @ [Some (UnexpectedBlock (block 150) 1)],
      (newWriter 0 False)\<lparr>blocks := blocksFrom 0 50\<rparr>)
   \<and> store ((newWriter 0 False)\<lparr>blocks := blocksFrom 0 50\<rparr>) = []"
proof -
  have a: "tweakBlock (newWriter 0 False) = None" "stopBlockNum (newWriter 0 False) = 0"
    "lowBlockNum (newWriter 0 False) = 0" "blocks (newWriter 0 False) = []"
    by (simp_all add: newWriter_def)
  have nu: "map Number (blocksFrom 0 50) = map of_nat [0..<50]"
    by (simp add: blocksFrom_def block_def)
  have n: "Number (block 150) = 150" by (simp add: block_def)
  have f: "GetProtocolFirstStreamableBlock (testEnv 1) \<noteq> 150" by (simp add: testEnv_def)
  have g: "GetProtocolFirstStreamableBlock (testEnv 1) = 1" by (simp add: testEnv_def)
  show ?thesis
    using skipped_boundary_rejected [OF a nu n f] by (simp add: g) (simp add: newWriter_def)
qed

subsection \<open>The first bundle of a chain\<close>

text \<open>
  Claim C5 says that the error "failed to check bundle size" is raised if and only if
  \<^verbatim>\<open>checkBundleSize\<close> is set, the buffer does not hold 100 blocks and the bundle is not
  the very first one, whose start depends on the chain and which may be short. The source
  tests the number of the block instead (line 57, \<^verbatim>\<open>blk.Number >= 100\<close>), so that only
  the bundle of the numbers 0 to 99 goes unchecked. On a chain whose first streamable
  block is 250, the first bundle holds the 50 blocks 250 to 299. Fed in order to a writer
  that has seen no block, with \<^verbatim>\<open>checkBundleSize\<close> set, they give 49 calls that return
  nil and a call on block 299 that returns the error with count 50 and boundary 200, after
  both scans; nothing is written, the 50 blocks stay in the buffer and the boundary
  stays at 200.
\<close>

theorem first_bundle_size_checked:
  assumes tw: "tweakBlock w = None" and st: "stopBlockNum w = 0"
    and lo: "lowBlockNum w = 0" and em: "blocks w = []" and cb: "checkBundleSize w"
    and f: "GetProtocolFirstStreamableBlock env = 250"
    and nu: "map Number blks = map (\<lambda>i. 250 + of_nat i) [0..<50]"
  shows "feed env w blks =
          (replicate 49 None @ [Some (BundleSize 50 200)],
           w\<lparr>lowBlockNum := 200, blocks := blks,
              logger := logger w @ [Debug_initial_boundary 200 (hd blks), Debug_last_bundle_block 299]
                 @ duplicateNumbers Map.empty blks @ duplicateIds Map.empty blks\<rparr>)"
proof -
  have len: "length blks = 50" using nu by (metis length_map length_upt minus_nat.diff_0)
  have nth: "Number (blks ! i) = 250 + of_nat i" if "i < 50" for i
  proof -
    have "map Number blks ! i = map (\<lambda>i. 250 + of_nat i) [0..<50] ! i" using nu by simp
    then show ?thesis using that len by simp
  qed
  define blk0 where "blk0 = hd blks"
  define mid where "mid = butlast (tl blks)"
  define blkL where "blkL = last blks"
  have ne: "blks \<noteq> []" and ne': "tl blks \<noteq> []"
    using len by (auto simp add: length_0_conv [symmetric] simp del: length_0_conv)
  have dec: "blks = blk0 # mid @ [blkL]"
    unfolding blk0_def mid_def blkL_def using ne ne'
    by (metis append_butlast_last_id last_tl list.collapse)
  have lm: "length mid = 48" unfolding mid_def using len by simp
  have n0: "Number blk0 = 250" using nth [of 0] dec by simp
  have nL: "Number blkL = 299"
  proof -
    have "blks ! 49 = blkL" using lm by (subst dec) (simp add: nth_append)
    then show ?thesis using nth [of 49] by simp
  qed
  have nm: "200 \<le> unat (Number x) \<and> unat (Number x) < 299" if "x \<in> set mid" for x
  proof -
    from that obtain j where j: "j < 48" "x = mid ! j" using lm by (metis in_set_conv_nth)
    have "blks ! Suc j = mid ! j" using j(1) lm by (subst dec) (simp add: nth_append)
    then have "Number x = 250 + of_nat (Suc j)" using nth [of "Suc j"] j by simp
    moreover have "unat ((250::uint64) + of_nat (Suc j)) = unat (250::uint64) + Suc j"
      using j(1) by (intro unat_plus_nat) simp
    ultimately show ?thesis using j(1) by simp
  qed
  let ?w1 = "w\<lparr>lowBlockNum := 200,
      logger := logger w @ [Debug_initial_boundary 200 blk0], blocks := [blk0]\<rparr>"
  have s1: "ProcessBlock env w (Some blk0) = (None, ?w1)"
    using tw st lo em f n0
    by (simp add: ProcessBlock_def admit_def tweak_def initialBlock_def nextBundle_def
          lastBundleBlock_def lowBoundary_def)
  let ?w2 = "?w1\<lparr>blocks := blocks ?w1 @ mid\<rparr>"
  have s2: "feed env ?w1 mid = (replicate (length mid) None, ?w2)"
    using tw st nm by (intro feed_within) simp_all
  have a3: "admit env ?w2 (Some blkL) = Inr (blkL, ?w2)"
    using tw st nL by (intro admit_within) simp_all
  have bl: "blocks ?w2 @ [blkL] = blks" by (simp add: dec)
  have s3: "ProcessBlock env ?w2 (Some blkL) =
      (Some (BundleSize 50 200),
       w\<lparr>lowBlockNum := 200, blocks := blks,
          logger := logger w @ [Debug_initial_boundary 200 blk0, Debug_last_bundle_block 299]
             @ duplicateNumbers Map.empty blks @ duplicateIds Map.empty blks\<rparr>)"
    unfolding ProcessBlock_def a3 using cb nL len bl
    by (simp add: lastBundleBlock_def checkDuplicateNumbers_def checkDuplicateIds_def)
  have h: "hd blks = blk0" by (simp add: blk0_def)
  have "feed env w blks = feed env w (blk0 # mid @ [blkL])" by (simp add: dec [symmetric])
  also have "\<dots> = (case feed env ?w1 (mid @ [blkL]) of (rs, w'') \<Rightarrow> (None # rs, w''))"
    by (simp add: s1)
  also have "\<dots> = (case ProcessBlock env ?w2 (Some blkL) of (r, w'') \<Rightarrow> (None # replicate 48 None @ [r], w''))"
    by (simp add: feed_append s2 lm split: prod.splits)
  finally have fd: "feed env w blks =
      (case ProcessBlock env ?w2 (Some blkL) of (r, w'') \<Rightarrow> (None # replicate 48 None @ [r], w''))" .
  have r49: "None # replicate 48 None @ [r] = replicate 49 None @ [r]" for r :: "error option"
    by (simp add: numeral_eq_Suc)
  show ?thesis unfolding fd s3 by (simp add: r49 h)
qed

theorem first_bundle_size_checked_witness:
  "feed (testEnv 250) (newWriter 0 True) (blocksFrom 250 50) =
     (replicate 49 None @ [Some (BundleSize 50 200)],
      (newWriter 0 True)\<lparr>lowBlockNum := 200, blocks := blocksFrom 250 50,
         logger := [Debug_initial_boundary 200 (block 250), Debug_last_bundle_block 299]
            @ duplicateNumbers Map.empty (blocksFrom 250 50) @ duplicateIds Map.empty (blocksFrom 250 50)\<rparr>)
   \<and> store ((newWriter 0 True)\<lparr>lowBlockNum := 200, blocks := blocksFrom 250 50\<rparr>) = []"
proof -
  have a: "tweakBlock (newWriter 0 True) = None" "stopBlockNum (newWriter 0 True) = 0"
    "lowBlockNum (newWriter 0 True) = 0" "blocks (newWriter 0 True) = []"
    "checkBundleSize (newWriter 0 True)"
    by (simp_all add: newWriter_def)
  have f: "GetProtocolFirstStreamableBlock (testEnv 250) = 250" by (simp add: testEnv_def)
  have n: "map Number (blocksFrom 250 50) = map (\<lambda>i. 250 + of_nat i) [0..<50]"
    using Number_blocksFrom [of 250 50] by simp
  have h: "hd (blocksFrom 250 50) = block 250" by (simp add: blocksFrom_def upt_conv_Cons)
  show ?thesis
    using first_bundle_size_checked [OF a f n] by (simp add: h) (simp add: newWriter_def)
qed

subsection \<open>The blocks of the buffer and the boundary\<close>

lemma inBundle_empty: "blocks w = [] \<Longrightarrow> inBundle w"
  by (simp add: inBundle_def)

lemma inBundle_logger [simp]: "inBundle (w\<lparr>logger := l\<rparr>) = inBundle w"
  by (simp add: inBundle_def)

lemma inBundle_snoc:
  "inBundle (w\<lparr>blocks := blocks w @ [blk]\<rparr>) =
     (inBundle w \<and> unat (lowBlockNum w) \<le> unat (Number blk) \<and> unat (Number blk) \<le> unat (lowBlockNum w) + 99)"
  by (simp add: inBundle_def)

lemma blocks_writeBundle: "blocks (snd (writeBundle env w)) = []"
  by (simp add: writeBundle_def Let_def split: option.splits)

lemma inBundle_writeBundle: "inBundle (snd (writeBundle env w))"
  by (rule inBundle_empty) (rule blocks_writeBundle)

lemma inBundle_lastBundleBlock: "inBundle w \<Longrightarrow> inBundle (snd (lastBundleBlock env w blk))"
  by (simp add: lastBundleBlock_def Let_def inBundle_writeBundle checkDuplicateIds_def checkDuplicateNumbers_def)


lemma admit_initial:
  assumes t: "tweak w p = Inr (Some blk)" and i: "lowBlockNum w = 0 \<and> 99 < Number blk"
    and e: "blocks w = []" and o: "unat (lowBoundary (Number blk)) + 99 < 2 ^ 64"
  shows "case admit env w p of
           Inl (err, w') \<Rightarrow> inBundle w'
         | Inr (b, w') \<Rightarrow> inBundle (w'\<lparr>blocks := blocks w' @ [b]\<rparr>)"
proof (cases "Number blk mod 100 \<noteq> 0 \<and> Number blk \<noteq> GetProtocolFirstStreamableBlock env")
  case True
  then have "admit env w p = Inl (UnexpectedBlock blk (GetProtocolFirstStreamableBlock env), w)"
    using t i by (simp add: admit_def initialBlock_def)
  then show ?thesis using e by (simp add: inBundle_empty)
next
  case False
  let ?w1 = "w\<lparr>lowBlockNum := lowBoundary (Number blk),
      logger := logger w @ [Debug_initial_boundary (lowBoundary (Number blk)) blk]\<rparr>"
  have ib: "initialBlock env w blk = Inr ?w1" using False i by (simp add: initialBlock_def)
  have nb: "nextBundle env ?w1 blk = (None, ?w1)"
    using in_own_bundle [OF o] by (simp add: nextBundle_def)
  have lo: "unat (lowBoundary (Number blk)) \<le> unat (Number blk)"
    by (simp add: unat_lowBoundary)
  have "unat (Number blk) mod 100 < 100" by simp
  then have hi: "unat (Number blk) \<le> unat (lowBoundary (Number blk)) + 99"
    unfolding unat_lowBoundary by arith
  show ?thesis using t ib nb e lo hi
    by (simp add: admit_def inBundle_def)
qed

lemma admit_later:
  assumes t: "tweak w p = Inr (Some blk)" and i: "\<not> (lowBlockNum w = 0 \<and> 99 < Number blk)"
    and inv: "inBundle w"
    and lo: "unat (lowBlockNum w) \<le> unat (Number blk)"
    and hi: "unat (Number blk) \<le> unat (lowBlockNum w) + 199"
    and o: "unat (lowBlockNum w) + 199 < 2 ^ 64"
  shows "case admit env w p of
           Inl (err, w') \<Rightarrow> inBundle w'
         | Inr (b, w') \<Rightarrow> inBundle (w'\<lparr>blocks := blocks w' @ [b]\<rparr>)"
proof -
  have ib: "initialBlock env w blk = Inr w" using i by (rule initialBlock_skip)
  have o99: "unat (lowBlockNum w) + 99 < 2 ^ 64" using o by simp
  have p99: "unat (lowBlockNum w + 99) = unat (lowBlockNum w) + 99" using o99 by (rule unat_plus99)
  show ?thesis
  proof (cases "lowBlockNum w + 99 < Number blk")
    case False
    then have nb: "nextBundle env w blk = (None, w)" by (rule nextBundle_skip)
    have "unat (Number blk) \<le> unat (lowBlockNum w) + 99"
      using False p99 by (simp add: word_less_nat_alt)
    then show ?thesis using t ib nb inv lo
      by (simp add: admit_def inBundle_snoc)
  next
    case True
    then have gt: "unat (lowBlockNum w) + 99 < unat (Number blk)"
      using p99 by (simp add: word_less_nat_alt)
    have o100: "unat (lowBlockNum w) + 100 < 2 ^ 64" using o by simp
    have p100: "unat (lowBlockNum w + 100) = unat (lowBlockNum w) + 100" using o100 by (rule unat_plus100)
    let ?w0 = "w\<lparr>logger := logger w @ [Debug_next_bundle blk (lowBlockNum w + 99)]\<rparr>"
    have nb: "nextBundle env w blk = writeBundle env ?w0" using True by (simp add: nextBundle_def)
    obtain r w' where wb: "writeBundle env ?w0 = (r, w')" by (cases "writeBundle env ?w0")
    have iw: "inBundle w'" using inBundle_writeBundle [of env ?w0] wb by simp
    show ?thesis
    proof (cases r)
      case (Some err)
      then have "admit env w p = Inl (err, w')"
        using t ib nb wb by (simp add: admit_def)
      then show ?thesis using iw by simp
    next
      case None
      then have ne: "blocks w \<noteq> []" using wb by (auto simp add: writeBundle_def Let_def)
      have l': "lowBlockNum w' = lowBlockNum w + 100"
        using ne wb by (auto simp add: writeBundle_def Let_def split: option.splits)
      have b': "blocks w' = []" using blocks_writeBundle [of env ?w0] wb by simp
      have "inBundle (w'\<lparr>blocks := blocks w' @ [blk]\<rparr>)"
        using gt hi by (simp add: inBundle_def l' b' p100)
      then show ?thesis using t ib nb wb None iw
        by (simp add: admit_def)
    qed
  qed
qed

lemma ProcessBlock_inBundle:
  assumes "inBundle w" and "contiguous w p"
  shows "inBundle (snd (ProcessBlock env w p))"
proof -
  have a: "case admit env w p of
           Inl (err, w') \<Rightarrow> inBundle w'
         | Inr (b, w') \<Rightarrow> inBundle (w'\<lparr>blocks := blocks w' @ [b]\<rparr>)"
  proof (cases "tweak w p")
    case (Inl err)
    then show ?thesis using assms(1) by (simp add: admit_def)
  next
    case (Inr q)
    show ?thesis
    proof (cases q)
      case None
      then show ?thesis using Inr assms(1) by (simp add: admit_def)
    next
      case (Some blk)
      with Inr have t: "tweak w p = Inr (Some blk)" by simp
      show ?thesis
      proof (cases "lowBlockNum w = 0 \<and> 99 < Number blk")
        case True
        have "blocks w = [] \<and> unat (lowBoundary (Number blk)) + 99 < 2 ^ 64"
          using assms(2) t True by (auto simp add: contiguous_def split: if_splits)
        then show ?thesis by (intro admit_initial [OF t True]) simp_all
      next
        case False
        have "unat (lowBlockNum w) \<le> unat (Number blk)
            \<and> unat (Number blk) \<le> unat (lowBlockNum w) + 199
            \<and> unat (lowBlockNum w) + 199 < 2 ^ 64"
          using assms(2) t False by (auto simp add: contiguous_def split: if_splits)
        then show ?thesis using assms(1) by (intro admit_later [OF t False]) simp_all
      qed
    qed
  qed
  show ?thesis
  proof (cases "admit env w p")
    case (Inl x)
    then show ?thesis using a by (cases x) (simp add: ProcessBlock_def)
  next
    case (Inr y)
    then show ?thesis using a by (cases y) (simp add: ProcessBlock_def inBundle_lastBundleBlock)
  qed
qed

lemma snd_feed_Cons:
  "snd (feed env w (blk # blks)) = snd (feed env (snd (ProcessBlock env w (Some blk))) blks)"
  by (simp split: prod.splits)

lemmas call_eval = ProcessBlock_def admit_def tweak_def initialBlock_def nextBundle_def
  lastBundleBlock_def writeBundle_def lowBoundary_def Let_def

text \<open>
  Claim C4, as stated: after any sequence of calls from the initial state, every block of
  the buffer has a number from the boundary to the boundary plus 99. It fails in three
  ways. A block more than one bundle ahead: after block 100 and block 350 the boundary is
  200 and the buffer holds block 350. A block below the boundary: after block 100 and
  block 5 the boundary is 100 and the buffer holds both. A block that sets the boundary
  over a buffer that holds blocks: after block 0 and block 100 the boundary is 100 and the
  buffer holds both.
\<close>

theorem buffer_in_bundle_counterexample:
  "blocks (snd (feed (testEnv 1) (newWriter 0 False) [block 100, block 350])) = [block 350]
   \<and> lowBlockNum (snd (feed (testEnv 1) (newWriter 0 False) [block 100, block 350])) = 200
   \<and> Number (block 350) = 350
   \<and> \<not> inBundle (snd (feed (testEnv 1) (newWriter 0 False) [block 100, block 350]))
   \<and> blocks (snd (feed (testEnv 1) (newWriter 0 False) [block 100, block 5])) = [block 100, block 5]
   \<and> lowBlockNum (snd (feed (testEnv 1) (newWriter 0 False) [block 100, block 5])) = 100
   \<and> Number (block 5) = 5
   \<and> \<not> inBundle (snd (feed (testEnv 1) (newWriter 0 False) [block 100, block 5]))
   \<and> blocks (snd (feed (testEnv 1) (newWriter 0 False) [block 0, block 100])) = [block 0, block 100]
   \<and> lowBlockNum (snd (feed (testEnv 1) (newWriter 0 False) [block 0, block 100])) = 100
   \<and> Number (block 0) = 0
   \<and> \<not> inBundle (snd (feed (testEnv 1) (newWriter 0 False) [block 0, block 100]))"
  by (simp add: call_eval inBundle_def newWriter_def block_def testEnv_def okStore_def)

text \<open>
  Claim C4, amended. Let a sequence of calls start from a writer of which the invariant
  holds, as it does of a writer with an empty buffer, and let every call of the sequence
  be of one of two kinds, where \<open>n\<close> is the number of the block of the call (after the
  hook). Either the boundary is 0 and \<open>n\<close> is above 99, so that the call takes the branch
  of the initial block, and then the buffer is empty and \<open>n - n mod 100 + 99\<close> is within
  \<^verbatim>\<open>uint64\<close>. Or the call is any other one, the boundary not being 0 or \<open>n\<close> being at
  most 99, and then \<open>n\<close> lies from the boundary up to the boundary plus 199, one bundle
  ahead at most, and the boundary plus 199 is within \<^verbatim>\<open>uint64\<close>. A call whose hook
  fails, or whose block is nil, is admitted as it is. After such calls, whatever they
  return, every block of the buffer has a number from the boundary to the boundary plus
  99.
\<close>

theorem buffer_in_bundle:
  assumes "inBundle w" and "contiguousFeed env w blks"
  shows "inBundle (snd (feed env w blks))"
  using assms
proof (induction blks arbitrary: w)
  case Nil
  then show ?case by simp
next
  case (Cons blk blks)
  have "inBundle (snd (ProcessBlock env w (Some blk)))"
    using Cons.prems by (intro ProcessBlock_inBundle) simp_all
  moreover have "contiguousFeed env (snd (ProcessBlock env w (Some blk))) blks"
    using Cons.prems(2) by simp
  ultimately have "inBundle (snd (feed env (snd (ProcessBlock env w (Some blk))) blks))"
    by (rule Cons.IH)
  then show ?case by (simp only: snd_feed_Cons)
qed


theorem buffer_in_bundle_witness:
  "inBundle (newWriter 0 False)
   \<and> contiguousFeed (testEnv 1) (newWriter 0 False) [block 100, block 101, block 250]
   \<and> inBundle (snd (feed (testEnv 1) (newWriter 0 False) [block 100, block 101, block 250]))
   \<and> blocks (snd (feed (testEnv 1) (newWriter 0 False) [block 100, block 101, block 250])) = [block 250]
   \<and> lowBlockNum (snd (feed (testEnv 1) (newWriter 0 False) [block 100, block 101, block 250])) = 200"
proof -
  have i: "inBundle (newWriter 0 False)" by (simp add: inBundle_def newWriter_def)
  have c: "contiguousFeed (testEnv 1) (newWriter 0 False) [block 100, block 101, block 250]"
    by (simp add: call_eval contiguous_def newWriter_def block_def testEnv_def okStore_def)
  have v: "blocks (snd (feed (testEnv 1) (newWriter 0 False) [block 100, block 101, block 250])) = [block 250]
      \<and> lowBlockNum (snd (feed (testEnv 1) (newWriter 0 False) [block 100, block 101, block 250])) = 200"
    by (simp add: call_eval newWriter_def block_def testEnv_def okStore_def)
  show ?thesis using buffer_in_bundle [OF i c] i c v by blast
qed

end
